theory Spec2Isabelle
  imports Main "HOL-Library.AList"
begin

section \<open>JavaScript values and objects\<close>

text \<open>
  The repository is TypeScript. Values that cross the boundary of \<open>Repository\<close> (entities,
  ids, query results, thrown errors, handles of collaborator objects) are JavaScript values.
  \<open>JRef\<close> stands for an object of a collaborator class (a driver, a query runner, a query
  runner provider, an entity class), known only by its identity. An object literal is the
  list of its own properties in creation order; property names in one object are distinct,
  and none of them is a canonical array index (for those \<open>Object.keys\<close> would sort first).
\<close>

datatype jsval =
    JUndefined
  | JNull
  | JBool bool
  | JNum int
  | JStr string
  | JRef nat
  | JObj "(string \<times> jsval) list"
  | JArr "jsval list"

type_synonym ObjectLiteral = "(string \<times> jsval) list"

text \<open>\<open>obj.hasOwnProperty(k)\<close>, the read \<open>obj[k]\<close> and the write \<open>obj[k] = v\<close> on an object
  literal. A write to an existing property keeps its place, a new property goes last.\<close>

definition hasOwnProperty :: "ObjectLiteral \<Rightarrow> string \<Rightarrow> bool" where
  "hasOwnProperty obj k = (map_of obj k \<noteq> None)"

definition getProperty :: "ObjectLiteral \<Rightarrow> string \<Rightarrow> jsval" where
  "getProperty obj k = (case map_of obj k of Some v \<Rightarrow> v | None \<Rightarrow> JUndefined)"

definition assign :: "ObjectLiteral \<Rightarrow> string \<Rightarrow> jsval \<Rightarrow> ObjectLiteral" where
  "assign obj k v = AList.update k v obj"

definition Object_keys :: "ObjectLiteral \<Rightarrow> string list" where
  "Object_keys obj = map fst obj"

text \<open>JavaScript truthiness, as \<open>if (x)\<close> and \<open>!!x\<close> read it.\<close>

fun truthy :: "jsval \<Rightarrow> bool" where
  "truthy JUndefined = False"
| "truthy JNull = False"
| "truthy (JBool b) = b"
| "truthy (JNum n) = (n \<noteq> 0)"
| "truthy (JStr s) = (s \<noteq> [])"
| "truthy (JRef r) = True"
| "truthy (JObj ps) = True"
| "truthy (JArr xs) = True"

section \<open>Entity metadata\<close>

text \<open>
  \<open>EntityMetadata\<close> and \<open>ColumnMetadata\<close> are classes of the repository that are not among
  the source files; \<open>Repository\<close> reads the members below. \<open>hasMultiplePrimaryKeys\<close> and
  \<open>firstPrimaryColumn\<close> are getters of the missing class and are taken as given, like fields.
  \<open>table_name\<close> is \<open>metadata.table.name\<close>.
  Modelled from the spec: \<open>propertyNames\<close>, the properties "known to the metadata schema"
  that the plain-object transformer copies.
\<close>

record ColumnMetadata =
  name :: string
  propertyName :: string

record EntityMetadata =
  target :: jsval
  table_name :: string
  primaryColumns :: "ColumnMetadata list"
  parentIdColumns :: "ColumnMetadata list"
  hasMultiplePrimaryKeys :: bool
  firstPrimaryColumn :: ColumnMetadata
  propertyNames :: "string list"

section \<open>Repository: synchronous operations\<close>

subsection \<open>hasId\<close>

text \<open>
  \<open>hasId(entity)\<close>: \<open>primaryColumns.every(...)\<close> over the entity. The entity argument is
  \<open>None\<close> when the caller passes \<open>null\<close> or \<open>undefined\<close> (the \<open>!!entity\<close> guard).
\<close>

definition hasId :: "EntityMetadata \<Rightarrow> ObjectLiteral option \<Rightarrow> bool" where
  "hasId metadata entity =
     list_all (\<lambda>primaryColumn.
        let columnName = propertyName primaryColumn in
        (case entity of
           None \<Rightarrow> False
         | Some e \<Rightarrow>
             hasOwnProperty e columnName \<and>
             getProperty e columnName \<noteq> JNull \<and>
             getProperty e columnName \<noteq> JUndefined \<and>
             getProperty e columnName \<noteq> JStr []))
       (primaryColumns metadata)"

subsection \<open>create and merge\<close>

text \<open>
  Modelled from the spec: \<open>EntityMetadata.create()\<close>, which is not among the source files,
  returns "a new blank instance": an entity without properties.
\<close>

definition metadata_create :: "EntityMetadata \<Rightarrow> ObjectLiteral" where
  "metadata_create metadata = []"

text \<open>
  Modelled from the spec: \<open>PlainObjectToNewEntityTransformer.transform(newEntity, object,
  metadata)\<close>, which is not among the source files, "copies only properties known to the
  metadata schema into the new instance": for every schema property that the object has,
  the object's value is written to the entity. A value that is not an object literal has
  no properties to copy.
\<close>

fun ownProperties :: "jsval \<Rightarrow> ObjectLiteral" where
  "ownProperties (JObj ps) = ps"
| "ownProperties v = []"

definition transform :: "ObjectLiteral \<Rightarrow> jsval \<Rightarrow> EntityMetadata \<Rightarrow> ObjectLiteral" where
  "transform newEntity object metadata =
     fold (\<lambda>p entity.
            if hasOwnProperty (ownProperties object) p
            then assign entity p (getProperty (ownProperties object) p)
            else entity)
          (propertyNames metadata) newEntity"

text \<open>
  \<open>create(plainObjectOrObjects?)\<close>: an array is mapped element by element through
  \<open>create\<close> itself; otherwise a new entity is made and, when the argument is truthy, the
  transformer copies into it. A call without argument passes \<open>JUndefined\<close>.
\<close>

fun create :: "EntityMetadata \<Rightarrow> jsval \<Rightarrow> jsval" where
  "create metadata (JArr plainObjects) = JArr (map (create metadata) plainObjects)"
| "create metadata plainObject =
     (let newEntity = metadata_create metadata in
      JObj (if truthy plainObject then transform newEntity plainObject metadata
            else newEntity))"

text \<open>\<open>merge(...objects)\<close>: one new entity, each object transformed into it in argument
  order (\<open>objects.forEach\<close>).\<close>

definition merge :: "EntityMetadata \<Rightarrow> ObjectLiteral list \<Rightarrow> ObjectLiteral" where
  "merge metadata objects =
     fold (\<lambda>object newEntity. transform newEntity (JObj object) metadata)
          objects (metadata_create metadata)"

section \<open>Query builder and find options\<close>

text \<open>
  \<open>Connection\<close>, \<open>QueryBuilder\<close>, \<open>FindOptions\<close> and \<open>FindOptionsUtils\<close> are not among the
  source files. A query builder is modelled by what \<open>Repository\<close> does to it: the connection
  it was made with and the list of the builder calls made on it, in order. Nothing is
  assumed about what a builder call does to the SQL. The field \<open>fo_alias\<close> is the
  \<open>alias\<close> of a FindOptions, \<open>settings\<close> are its other members.
\<close>

record Connection =
  driver :: jsval

record FindOptions =
  fo_alias :: string
  settings :: ObjectLiteral

datatype QueryBuilderCall =
    Select string
  | From jsval string
  | ApplyOptions FindOptions
  | AndWhere string
  | AddParameters ObjectLiteral

record QueryBuilder =
  qb_connection :: Connection
  qb_calls :: "QueryBuilderCall list"

definition new_QueryBuilder :: "Connection \<Rightarrow> QueryBuilder" where
  "new_QueryBuilder c = \<lparr>qb_connection = c, qb_calls = []\<rparr>"

definition builderCall :: "QueryBuilderCall \<Rightarrow> QueryBuilder \<Rightarrow> QueryBuilder" where
  "builderCall c qb = qb\<lparr>qb_calls := qb_calls qb @ [c]\<rparr>"

definition select :: "string \<Rightarrow> QueryBuilder \<Rightarrow> QueryBuilder" where
  "select a = builderCall (Select a)"

definition from_target :: "jsval \<Rightarrow> string \<Rightarrow> QueryBuilder \<Rightarrow> QueryBuilder" where
  "from_target t a = builderCall (From t a)"

definition andWhere :: "string \<Rightarrow> QueryBuilder \<Rightarrow> QueryBuilder" where
  "andWhere w = builderCall (AndWhere w)"

definition addParameters :: "ObjectLiteral \<Rightarrow> QueryBuilder \<Rightarrow> QueryBuilder" where
  "addParameters ps = builderCall (AddParameters ps)"

definition applyOptionsToQueryBuilder :: "QueryBuilder \<Rightarrow> FindOptions \<Rightarrow> QueryBuilder" where
  "applyOptionsToQueryBuilder qb findOptions = builderCall (ApplyOptions findOptions) qb"

text \<open>
  The first positional argument of the find methods is \<open>ObjectLiteral|FindOptions\<close>.
  Modelled from the spec: \<open>FindOptionsUtils.isFindOptions\<close> is "a type predicate" that
  determines which argument is a FindOptions; it is false for a missing argument.
\<close>

datatype ConditionsOrFindOptions =
    Conditions ObjectLiteral
  | Options FindOptions

fun isFindOptions :: "ConditionsOrFindOptions option \<Rightarrow> bool" where
  "isFindOptions (Some (Options fo)) = True"
| "isFindOptions other = False"

fun asFindOptions :: "ConditionsOrFindOptions option \<Rightarrow> FindOptions option" where
  "asFindOptions (Some (Options fo)) = Some fo"
| "asFindOptions other = None"

fun asConditions :: "ConditionsOrFindOptions option \<Rightarrow> ObjectLiteral option" where
  "asConditions (Some (Conditions c)) = Some c"
| "asConditions other = None"

text \<open>\<open>key.indexOf(".")\<close>: the position of the first occurrence, \<open>-1\<close> when there is none.\<close>

fun indexOf :: "string \<Rightarrow> char \<Rightarrow> int" where
  "indexOf [] c = - 1"
| "indexOf (x # xs) c =
     (if x = c then 0 else (let i = indexOf xs c in if i = - 1 then - 1 else i + 1))"

section \<open>Repository\<close>

text \<open>
  The three constructor parameters. \<open>queryRunnerProvider\<close> is \<open>None\<close> for a repository
  constructed without a provider; a provider is an object, so \<open>this.queryRunnerProvider ||
  ...\<close> and \<open>!this.queryRunnerProvider\<close> test for \<open>None\<close>.
\<close>

record Repository =
  connection :: Connection
  metadata :: EntityMetadata
  queryRunnerProvider :: "jsval option"

definition createQueryBuilder :: "Repository \<Rightarrow> string \<Rightarrow> QueryBuilder" where
  "createQueryBuilder repo a =
     from_target (target (metadata repo)) a (select a (new_QueryBuilder (connection repo)))"

text \<open>
  \<open>createFindQueryBuilder(conditionsOrFindOptions?, options?)\<close>. The \<open>forEach\<close> over
  \<open>Object.keys(conditions)\<close> is the \<open>fold\<close>.
\<close>

definition whereOfKey :: "string \<Rightarrow> string \<Rightarrow> string" where
  "whereOfKey theAlias key =
     (let nm = (if indexOf key (CHR ''.'') = - 1 then theAlias @ ''.'' @ key else key)
      in nm @ ''=:'' @ key)"

definition createFindQueryBuilder ::
  "Repository \<Rightarrow> ConditionsOrFindOptions option \<Rightarrow> FindOptions option \<Rightarrow> QueryBuilder" where
  "createFindQueryBuilder repo conditionsOrFindOptions options =
     (let findOptions = (if isFindOptions conditionsOrFindOptions
                         then asFindOptions conditionsOrFindOptions else options);
          conditions = (if isFindOptions conditionsOrFindOptions
                        then None else asConditions conditionsOrFindOptions);
          theAlias = (case findOptions of
                        Some fo \<Rightarrow> fo_alias fo
                      | None \<Rightarrow> table_name (metadata repo));
          qb = createQueryBuilder repo theAlias;
          qb1 = (case findOptions of
                   Some fo \<Rightarrow> applyOptionsToQueryBuilder qb fo
                 | None \<Rightarrow> qb)
      in (case conditions of
            Some c \<Rightarrow>
              addParameters c
                (fold (\<lambda>key q. andWhere (whereOfKey theAlias key) q) (Object_keys c) qb1)
          | None \<Rightarrow> qb1))"

section \<open>Asynchronous operations\<close>

text \<open>
  Every call that leaves \<open>Repository\<close> for a collaborator is a \<open>call\<close>: the constructor of
  a query runner provider, the provider's and the runner's methods, the entity persister
  (made from the connection, the metadata and the runner, then asked to persist or
  remove), and the three executing methods of a query builder. \<open>External\<close> is any other
  call that the function given to \<open>transaction\<close> may make.
  A call completes with a value (\<open>Inr\<close>) or throws (\<open>Inl\<close>); a rejected promise under
  \<open>await\<close> is a throw.
\<close>

datatype call =
    NewQueryRunnerProvider jsval "bool option"
  | Provide jsval
  | Release jsval jsval
  | ReleaseReused jsval
  | BeginTransaction jsval
  | CommitTransaction jsval
  | RollbackTransaction jsval
  | RunnerQuery jsval string
  | PersisterPersist Connection EntityMetadata jsval jsval
  | PersisterRemove Connection EntityMetadata jsval jsval
  | GetResults QueryBuilder
  | GetResultsAndCount QueryBuilder
  | GetSingleResult QueryBuilder
  | External string "jsval list"

type_synonym completion = "jsval + jsval"

text \<open>
  An \<open>async\<close> function body: it has settled, or it makes a call and goes on with the
  call's completion.
\<close>

datatype async =
    Settled completion
  | Call call "completion \<Rightarrow> async"

definition call :: "call \<Rightarrow> async" where
  "call c = Call c Settled"

primrec bind :: "async \<Rightarrow> (jsval \<Rightarrow> async) \<Rightarrow> async" where
  "bind (Settled r) f = (case r of Inl e \<Rightarrow> Settled (Inl e) | Inr v \<Rightarrow> f v)"
| "bind (Call c k) f = Call c (\<lambda>r. bind (k r) f)"

text \<open>\<open>try { body } catch (err) { handler }\<close> and \<open>try { body } finally { cleanup }\<close>.
  A cleanup that throws replaces the body's completion; one that ends normally keeps it.\<close>

primrec tryCatch :: "async \<Rightarrow> (jsval \<Rightarrow> async) \<Rightarrow> async" where
  "tryCatch (Settled r) handler = (case r of Inl e \<Rightarrow> handler e | Inr v \<Rightarrow> Settled (Inr v))"
| "tryCatch (Call c k) handler = Call c (\<lambda>r. tryCatch (k r) handler)"

primrec tryFinally :: "async \<Rightarrow> async \<Rightarrow> async" where
  "tryFinally (Settled r) cleanup = bind cleanup (\<lambda>_. Settled r)"
| "tryFinally (Call c k) cleanup = Call c (\<lambda>r. tryFinally (k r) cleanup)"

text \<open>\<open>this.queryRunnerProvider || new QueryRunnerProvider(this.connection.driver, flag)\<close>;
  the flag is \<open>None\<close> where the source leaves the second argument out.\<close>

definition providerOrNew :: "Repository \<Rightarrow> bool option \<Rightarrow> async" where
  "providerOrNew repo flag =
     (case queryRunnerProvider repo of
        Some p \<Rightarrow> Settled (Inr p)
      | None \<Rightarrow> call (NewQueryRunnerProvider (driver (connection repo)) flag))"

subsection \<open>persist, remove, query\<close>

text \<open>
  What a call of \<open>persist\<close> or \<open>remove\<close> returns: the promise of one \<open>async\<close> body, or
  \<open>Promise.all\<close> over the promises of the elements. \<open>persistOne\<close> and \<open>removeOne\<close> are
  the bodies below the \<open>instanceof Array\<close> test.
\<close>

datatype promise =
    Single async
  | PromiseAll "promise list"

definition persistOne :: "Repository \<Rightarrow> jsval \<Rightarrow> async" where
  "persistOne repo entity =
     bind (providerOrNew repo None) (\<lambda>provider.
     bind (call (Provide provider)) (\<lambda>queryRunner.
       tryFinally
         (call (PersisterPersist (connection repo) (metadata repo) queryRunner entity))
         (call (Release provider queryRunner))))"

fun persist :: "Repository \<Rightarrow> jsval \<Rightarrow> promise" where
  "persist repo (JArr entities) = PromiseAll (map (persist repo) entities)"
| "persist repo entity = Single (persistOne repo entity)"

definition removeOne :: "Repository \<Rightarrow> jsval \<Rightarrow> async" where
  "removeOne repo entity =
     bind (providerOrNew repo (Some True)) (\<lambda>provider.
     bind (call (Provide provider)) (\<lambda>queryRunner.
       tryFinally
         (call (PersisterRemove (connection repo) (metadata repo) queryRunner entity))
         (call (Release provider queryRunner))))"

fun remove :: "Repository \<Rightarrow> jsval \<Rightarrow> promise" where
  "remove repo (JArr entities) = PromiseAll (map (remove repo) entities)"
| "remove repo entity = Single (removeOne repo entity)"

definition query :: "Repository \<Rightarrow> string \<Rightarrow> async" where
  "query repo sql =
     bind (providerOrNew repo None) (\<lambda>provider.
     bind (call (Provide provider)) (\<lambda>queryRunner.
       tryFinally
         (call (RunnerQuery queryRunner sql))
         (call (Release provider queryRunner))))"

subsection \<open>transaction\<close>

text \<open>
  \<open>transactionTry\<close> is the \<open>try { ... } catch (err) { ... }\<close> of \<open>transaction\<close>,
  \<open>transactionFinally\<close> its \<open>finally\<close> block. The function given to \<open>transaction\<close> is any
  \<open>async\<close> body that depends on the repository it is handed; a function that returns a
  plain value or throws at once is a settled body.
\<close>

definition transactionTry :: "jsval \<Rightarrow> Repository \<Rightarrow> (Repository \<Rightarrow> async) \<Rightarrow> async" where
  "transactionTry queryRunner transactionRepository runInTransaction =
     tryCatch
       (bind (call (BeginTransaction queryRunner)) (\<lambda>_.
        bind (runInTransaction transactionRepository) (\<lambda>result.
        bind (call (CommitTransaction queryRunner)) (\<lambda>_.
        Settled (Inr result)))))
       (\<lambda>err.
        bind (call (RollbackTransaction queryRunner)) (\<lambda>_.
        Settled (Inl err)))"

definition transactionFinally :: "Repository \<Rightarrow> jsval \<Rightarrow> jsval \<Rightarrow> async" where
  "transactionFinally repo provider queryRunner =
     bind (call (Release provider queryRunner)) (\<lambda>_.
     if queryRunnerProvider repo = None
     then call (ReleaseReused provider)
     else Settled (Inr JUndefined))"

definition transaction :: "Repository \<Rightarrow> (Repository \<Rightarrow> async) \<Rightarrow> async" where
  "transaction repo runInTransaction =
     bind (providerOrNew repo (Some True)) (\<lambda>provider.
     bind (call (Provide provider)) (\<lambda>queryRunner.
       let transactionRepository =
             \<lparr>connection = connection repo, metadata = metadata repo,
              queryRunnerProvider = Some provider\<rparr>
       in
       tryFinally
         (transactionTry queryRunner transactionRepository runInTransaction)
         (transactionFinally repo provider queryRunner)))"

subsection \<open>find, findAndCount, findOne, findOneById\<close>

definition find_entities ::
  "Repository \<Rightarrow> ConditionsOrFindOptions option \<Rightarrow> FindOptions option \<Rightarrow> async" where
  "find_entities repo conditionsOrFindOptions options =
     call (GetResults (createFindQueryBuilder repo conditionsOrFindOptions options))"

definition findAndCount ::
  "Repository \<Rightarrow> ConditionsOrFindOptions option \<Rightarrow> FindOptions option \<Rightarrow> async" where
  "findAndCount repo conditionsOrFindOptions options =
     call (GetResultsAndCount (createFindQueryBuilder repo conditionsOrFindOptions options))"

definition findOne ::
  "Repository \<Rightarrow> ConditionsOrFindOptions option \<Rightarrow> FindOptions option \<Rightarrow> async" where
  "findOne repo conditionsOrFindOptions options =
     call (GetSingleResult (createFindQueryBuilder repo conditionsOrFindOptions options))"

text \<open>
  The read \<open>id[k]\<close> of \<open>findOneById\<close>, where \<open>id\<close> is any value: a TypeError on \<open>null\<close> and
  \<open>undefined\<close>, the own property of an object literal, and \<open>undefined\<close> on a value without
  own data properties of that name (members that a string or an array carries, such as
  \<open>length\<close>, are not modelled).
\<close>

definition TypeError :: jsval where
  "TypeError = JObj [(''name'', JStr ''TypeError'')]"

fun readId :: "jsval \<Rightarrow> string \<Rightarrow> completion" where
  "readId JUndefined k = Inl TypeError"
| "readId JNull k = Inl TypeError"
| "readId (JObj ps) k = Inr (getProperty ps k)"
| "readId v k = Inr JUndefined"

text \<open>
  One \<open>forEach\<close> of the composite-key branch: for each column in order,
  \<open>conditions[column.name] = id[key(column)]\<close>, where \<open>key\<close> is \<open>name\<close> in the loop over
  the primary columns and \<open>propertyName\<close> in the loop over the parent id columns. A read
  that throws ends the loop with that error.
\<close>

fun assignEach ::
  "(ColumnMetadata \<Rightarrow> string) \<Rightarrow> jsval \<Rightarrow> ColumnMetadata list \<Rightarrow> ObjectLiteral
     \<Rightarrow> jsval + ObjectLiteral" where
  "assignEach key ident [] conditions = Inr conditions"
| "assignEach key ident (column # columns) conditions =
     (case readId ident (key column) of
        Inl e \<Rightarrow> Inl e
      | Inr v \<Rightarrow> assignEach key ident columns (assign conditions (name column) v))"

definition findOneById_conditions :: "EntityMetadata \<Rightarrow> jsval \<Rightarrow> jsval + ObjectLiteral" where
  "findOneById_conditions md ident =
     (if hasMultiplePrimaryKeys md then
        (case assignEach name ident (primaryColumns md) [] of
           Inl e \<Rightarrow> Inl e
         | Inr conditions \<Rightarrow> assignEach propertyName ident (parentIdColumns md) conditions)
      else if length (primaryColumns md) > 0 then
        Inr (assign [] (name (firstPrimaryColumn md)) ident)
      else if length (parentIdColumns md) > 0 then
        Inr (assign [] (name (parentIdColumns md ! 0)) ident)
      else Inr [])"

definition findOneById :: "Repository \<Rightarrow> jsval \<Rightarrow> FindOptions option \<Rightarrow> async" where
  "findOneById repo ident options =
     (case findOneById_conditions (metadata repo) ident of
        Inl e \<Rightarrow> Settled (Inl e)
      | Inr conditions \<Rightarrow>
          call (GetSingleResult
                  (createFindQueryBuilder repo (Some (Conditions conditions)) options)))"

section \<open>Running an operation\<close>

text \<open>
  The collaborators are a parameter: a world answers every call with a completion, from
  a state of its own that the call may change. Running an \<open>async\<close> body in a world gives
  its completion, the calls it made with their completions in order, and the world's
  state after it.
\<close>

type_synonym 's world = "call \<Rightarrow> 's \<Rightarrow> completion \<times> 's"

type_synonym event = "call \<times> completion"

primrec exec :: "'s world \<Rightarrow> async \<Rightarrow> 's \<Rightarrow> completion \<times> event list \<times> 's" where
  "exec w (Settled r) s = (r, [], s)"
| "exec w (Call c k) s =
     (case w c s of (r, s') \<Rightarrow>
        (case exec w (k r) s' of (out, tr, s'') \<Rightarrow> (out, (c, r) # tr, s'')))"

section \<open>Promise.all over the elements of an array\<close>

text \<open>
  \<open>Promise.all(entities.map(entity => this.persist(entity)))\<close> starts one \<open>async\<close> body per
  element; the bodies then run interleaved. JavaScript does not preempt a body between two
  calls, so an interleaving is a schedule: each entry names a sibling (by its path in the
  nesting of the arrays), and lets that sibling receive the completion of its pending
  call and go on to its next call, or settle. An entry that names no pending sibling does
  nothing. The call and its completion are one step of the model; the constructor of a
  provider, which the source does not await, is a step too, which only adds schedules.
  A leaf carries the position in the log of its last step, which for a settled leaf is
  the time at which it settled.
\<close>

datatype running =
    Leaf async nat
  | Node "running list"

fun start :: "promise \<Rightarrow> running" where
  "start (Single a) = Leaf a 0"
| "start (PromiseAll ps) = Node (map start ps)"

type_synonym path = "nat list"

fun stepAt :: "'s world \<Rightarrow> nat \<Rightarrow> path \<Rightarrow> running \<Rightarrow> 's \<Rightarrow> running \<times> event list \<times> 's" where
  "stepAt w t [] (Leaf (Call c k) u) s =
     (case w c s of (r, s') \<Rightarrow> (Leaf (k r) t, [(c, r)], s'))"
| "stepAt w t (i # path) (Node cs) s =
     (if i < length cs
      then (case stepAt w t path (cs ! i) s of
              (c', evs, s') \<Rightarrow> (Node (cs[i := c']), evs, s'))
      else (Node cs, [], s))"
| "stepAt w t path x s = (x, [], s)"

record 's running_state =
  tree :: running
  log :: "(path \<times> event) list"
  world_state :: 's

definition step :: "'s world \<Rightarrow> path \<Rightarrow> 's running_state \<Rightarrow> 's running_state" where
  "step w path cfg =
     (case stepAt w (Suc (length (log cfg))) path (tree cfg) (world_state cfg) of
        (tree', evs, s') \<Rightarrow>
          \<lparr>tree = tree', log = log cfg @ map (Pair path) evs, world_state = s'\<rparr>)"

definition run :: "'s world \<Rightarrow> path list \<Rightarrow> promise \<Rightarrow> 's \<Rightarrow> 's running_state" where
  "run w schedule p s = fold (step w) schedule \<lparr>tree = start p, log = [], world_state = s\<rparr>"

text \<open>
  What \<open>Promise.all\<close> has settled to: it is rejected with the error of the child that was
  rejected first (the smallest settling time; the earlier child when two were rejected
  before any step), whether or not the other children have settled; it is fulfilled with
  the array of the children's values, in the order of the children, when all of them are
  fulfilled; it is pending otherwise. A \<open>Promise.all\<close> inside another one counts as
  rejected at the time its deciding child was.
\<close>

datatype outcome = Pending | Fulfilled jsval | Rejected nat jsval

fun earliest :: "outcome list \<Rightarrow> (nat \<times> jsval) option" where
  "earliest [] = None"
| "earliest (Rejected t e # sts) =
     (case earliest sts of
        Some (t', e') \<Rightarrow> if t' < t then Some (t', e') else Some (t, e)
      | None \<Rightarrow> Some (t, e))"
| "earliest (st # sts) = earliest sts"

fun fulfilledValue :: "outcome \<Rightarrow> jsval option" where
  "fulfilledValue (Fulfilled v) = Some v"
| "fulfilledValue st = None"

fun outcomeOf :: "running \<Rightarrow> outcome" where
  "outcomeOf (Leaf (Settled (Inr v)) t) = Fulfilled v"
| "outcomeOf (Leaf (Settled (Inl e)) t) = Rejected t e"
| "outcomeOf (Leaf (Call c k) t) = Pending"
| "outcomeOf (Node cs) =
     (let sts = map outcomeOf cs in
      case earliest sts of
        Some (t, e) \<Rightarrow> Rejected t e
      | None \<Rightarrow>
          if list_all (\<lambda>st. fulfilledValue st \<noteq> None) sts
          then Fulfilled (JArr (map (\<lambda>st. the (fulfilledValue st)) sts))
          else Pending)"

text \<open>
  The log of a run, read per sibling: the events of one sibling in order, and the position
  (from 1) of its last event, \<open>0\<close> when it has none.
\<close>

definition eventsOf :: "path \<Rightarrow> (path \<times> event) list \<Rightarrow> event list" where
  "eventsOf p lg = map snd (filter (\<lambda>x. fst x = p) lg)"

fun lastIn :: "path \<Rightarrow> (path \<times> event) list \<Rightarrow> nat" where
  "lastIn p [] = 0"
| "lastIn p (x # xs) = (if fst x = p then Suc (length xs) else lastIn p xs)"

definition lastPosition :: "path \<Rightarrow> (path \<times> event) list \<Rightarrow> nat" where
  "lastPosition p lg = lastIn p (rev lg)"

text \<open>
  A complete acquire/delegate/release cycle of one single-entity operation, as a shape of
  its events \<open>evs\<close> and its completion \<open>r\<close>: with a provider \<open>p\<close> at hand either
  \<open>provide\<close> fails and that is all, or \<open>provide\<close> gives a runner, the delegate \<open>d\<close> is
  called with it and the runner is released, the completion being the delegate's unless
  the release throws. A repository without a provider constructs one first, with the
  \<open>flag\<close> of the operation.
\<close>

fun leasedCycle :: "jsval \<Rightarrow> (jsval \<Rightarrow> call) \<Rightarrow> event list \<Rightarrow> completion \<Rightarrow> bool" where
  "leasedCycle p d [(c1, Inl err)] r = (c1 = Provide p \<and> r = Inl err)"
| "leasedCycle p d [(c1, Inr qr), (c2, rd), (c3, rl)] r =
     (c1 = Provide p \<and> c2 = d qr \<and> c3 = Release p qr
      \<and> r = (case rl of Inl x \<Rightarrow> Inl x | Inr u \<Rightarrow> rd))"
| "leasedCycle p d evs r = False"

definition leaseCycle ::
  "Repository \<Rightarrow> bool option \<Rightarrow> (jsval \<Rightarrow> call) \<Rightarrow> event list \<Rightarrow> completion \<Rightarrow> bool" where
  "leaseCycle repo flag d evs r =
     (case queryRunnerProvider repo of
        Some p \<Rightarrow> leasedCycle p d evs r
      | None \<Rightarrow>
          (case evs of
             [] \<Rightarrow> False
           | (c0, r0) # rest \<Rightarrow>
               c0 = NewQueryRunnerProvider (driver (connection repo)) flag
               \<and> (case r0 of
                     Inl err \<Rightarrow> rest = [] \<and> r = Inl err
                   | Inr p \<Rightarrow> leasedCycle p d rest r)))"

text \<open>
  For the proofs: \<open>leased\<close> is the part of \<open>persistOne\<close>, \<open>removeOne\<close> and \<open>query\<close> that
  follows the choice of the provider; \<open>residual a evs\<close> is what remains of the body \<open>a\<close>
  after the events \<open>evs\<close>; \<open>fanInv\<close> is the invariant of a run over the bodies \<open>as\<close>:
  every sibling is a leaf that holds what remains of its body after its own events, stamped
  with the position of its last event, and a sibling that has not settled has made one
  call for each time the schedule named it.
\<close>

definition leased :: "jsval \<Rightarrow> (jsval \<Rightarrow> call) \<Rightarrow> async" where
  "leased p d =
     bind (call (Provide p)) (\<lambda>queryRunner.
       tryFinally (call (d queryRunner)) (call (Release p queryRunner)))"

fun residual :: "async \<Rightarrow> event list \<Rightarrow> async option" where
  "residual a [] = Some a"
| "residual (Call c k) ((c', r) # evs) = (if c' = c then residual (k r) evs else None)"
| "residual (Settled x) (ev # evs) = None"

fun leafCompletion :: "running \<Rightarrow> completion" where
  "leafCompletion (Leaf (Settled r) t) = r"
| "leafCompletion other = Inr JUndefined"

definition fanInv :: "async list \<Rightarrow> path list \<Rightarrow> 's running_state \<Rightarrow> bool" where
  "fanInv as sched cfg \<longleftrightarrow>
     (\<exists>leafs. tree cfg = Node leafs \<and> length leafs = length as \<and>
        (\<forall>i<length as. \<exists>a. leafs ! i = Leaf a (lastPosition [i] (log cfg))
            \<and> residual (as ! i) (eventsOf [i] (log cfg)) = Some a
            \<and> ((\<exists>r. a = Settled r) \<or> length (eventsOf [i] (log cfg)) = count_list sched [i])))"

section \<open>Example inputs\<close>

text \<open>An entity type \<open>user\<close> with the single primary key \<open>id\<close> and the further schema
  properties \<open>x\<close> and \<open>y\<close>.\<close>

definition userMetadata :: EntityMetadata where
  "userMetadata =
     \<lparr>target = JRef 1, table_name = ''user'',
      primaryColumns = [\<lparr>name = ''id'', propertyName = ''id''\<rparr>],
      parentIdColumns = [],
      hasMultiplePrimaryKeys = False,
      firstPrimaryColumn = \<lparr>name = ''id'', propertyName = ''id''\<rparr>,
      propertyNames = [''id'', ''x'', ''y'']\<rparr>"

text \<open>A repository of \<open>user\<close> that was constructed without a query runner provider.\<close>

definition userRepository :: Repository where
  "userRepository = \<lparr>connection = \<lparr>driver = JRef 100\<rparr>, metadata = userMetadata,
                      queryRunnerProvider = None\<rparr>"

text \<open>An entity type with a composite key whose columns are named differently from their
  properties, and with one parent id column.\<close>

definition membershipMetadata :: EntityMetadata where
  "membershipMetadata =
     \<lparr>target = JRef 2, table_name = ''membership'',
      primaryColumns = [\<lparr>name = ''user_id'', propertyName = ''userId''\<rparr>,
                        \<lparr>name = ''org_id'', propertyName = ''orgId''\<rparr>],
      parentIdColumns = [\<lparr>name = ''parent_id'', propertyName = ''parentId''\<rparr>],
      hasMultiplePrimaryKeys = True,
      firstPrimaryColumn = \<lparr>name = ''user_id'', propertyName = ''userId''\<rparr>,
      propertyNames = [''userId'', ''orgId'', ''parentId'', ''role'']\<rparr>"

text \<open>
  Worlds for the examples: the state counts the calls made, and the answer depends on the
  call alone. In \<open>demoAnswer\<close> a new provider is \<open>JRef 7\<close>, the runner it provides is
  \<open>JRef 8\<close>, persisting or removing \<open>null\<close> fails, and so does the empty query; every
  other call succeeds. \<open>rollbackFails\<close>, \<open>releaseFails\<close> and \<open>provideFails\<close> differ from
  it in one call.
\<close>

definition stubWorld :: "(call \<Rightarrow> completion) \<Rightarrow> nat world" where
  "stubWorld answer c n = (answer c, Suc n)"

fun demoAnswer :: "call \<Rightarrow> completion" where
  "demoAnswer (NewQueryRunnerProvider d f) = Inr (JRef 7)"
| "demoAnswer (Provide p) = Inr (JRef 8)"
| "demoAnswer (PersisterPersist c m qr e) =
     (if e = JNull then Inl (JStr ''cannot persist'') else Inr e)"
| "demoAnswer (PersisterRemove c m qr e) =
     (if e = JNull then Inl (JStr ''cannot remove'') else Inr e)"
| "demoAnswer (RunnerQuery qr sql) =
     (if sql = [] then Inl (JStr ''empty query'') else Inr (JArr []))"
| "demoAnswer other = Inr JUndefined"

definition rollbackFails :: "call \<Rightarrow> completion" where
  "rollbackFails c =
     (case c of RollbackTransaction qr \<Rightarrow> Inl (JStr ''connection lost'') | _ \<Rightarrow> demoAnswer c)"

definition releaseFails :: "call \<Rightarrow> completion" where
  "releaseFails c =
     (case c of Release p qr \<Rightarrow> Inl (JStr ''release failed'') | _ \<Rightarrow> demoAnswer c)"

definition provideFails :: "call \<Rightarrow> completion" where
  "provideFails c =
     (case c of Provide p \<Rightarrow> Inl (JStr ''pool exhausted'') | _ \<Rightarrow> demoAnswer c)"

text \<open>Two functions for \<open>transaction\<close>: one throws at once, one persists an entity through
  the repository it is given and then throws.\<close>

definition throwError :: "Repository \<Rightarrow> async" where
  "throwError repo = Settled (Inl (JStr ''Error''))"

definition persistThenThrow :: "Repository \<Rightarrow> async" where
  "persistThenThrow repo =
     bind (persistOne repo (JObj [(''id'', JNum 1)])) (\<lambda>_. Settled (Inl (JStr ''Error'')))"


section \<open>Properties of the synchronous operations\<close>

subsection \<open>hasId\<close>

lemma hasId_Some:
  "hasId md (Some e) =
     (\<forall>c \<in> set (primaryColumns md).
        \<exists>v. map_of e (propertyName c) = Some v \<and> v \<noteq> JNull \<and> v \<noteq> JUndefined \<and> v \<noteq> JStr [])"
  by (auto simp: hasId_def list_all_iff hasOwnProperty_def getProperty_def Let_def
           split: option.splits)

text \<open>
  Claim C6. \<open>hasId(entity)\<close> is true iff every primary-key column's property is an own
  property of the entity whose value is neither \<open>null\<close> nor \<open>undefined\<close> nor the empty
  string; one primary-key property that reads as \<open>null\<close>, \<open>undefined\<close> (also when it is
  missing) or \<open>""\<close> makes it false. Without an entity it is true only when there is no
  primary-key column. The function is pure: \<open>hasId\<close> is a function of the metadata and
  the entity alone, its result is the boolean, it makes no \<open>call\<close> and returns no entity.
\<close>

theorem hasId_spec:
  "(hasId md (Some e) \<longleftrightarrow>
      (\<forall>c \<in> set (primaryColumns md).
         \<exists>v. map_of e (propertyName c) = Some v \<and> v \<noteq> JNull \<and> v \<noteq> JUndefined \<and> v \<noteq> JStr []))
   \<and> ((\<exists>c \<in> set (primaryColumns md).
          getProperty e (propertyName c) \<in> {JNull, JUndefined, JStr []}) \<longrightarrow> \<not> hasId md (Some e))
   \<and> (hasId md None \<longleftrightarrow> primaryColumns md = [])"
  apply (intro conjI)
    apply (rule hasId_Some)
   apply (auto simp: hasId_def list_all_iff hasOwnProperty_def getProperty_def Let_def
               split: option.splits)[1]
  apply (cases "primaryColumns md"; simp add: hasId_def)
  done

theorem hasId_spec_witness:
  "hasId userMetadata (Some [(''id'', JNum 5), (''x'', JNull)])
   \<and> \<not> hasId userMetadata (Some [(''id'', JStr []), (''x'', JNum 1)])
   \<and> \<not> hasId userMetadata (Some [(''x'', JNum 1)])
   \<and> \<not> hasId userMetadata None"
  using hasId_spec [of userMetadata "[(''id'', JNum 5), (''x'', JNull)]"]
        hasId_spec [of userMetadata "[(''id'', JStr []), (''x'', JNum 1)]"]
        hasId_spec [of userMetadata "[(''x'', JNum 1)]"]
  by (simp add: userMetadata_def getProperty_def)

subsection \<open>create and merge\<close>

lemma map_of_assign: "map_of (assign obj k v) k' = (if k' = k then Some v else map_of obj k')"
  by (simp add: assign_def update_conv')

lemma map_of_copy_fold:
  "map_of (fold (\<lambda>p entity. if hasOwnProperty src p then assign entity p (getProperty src p)
                              else entity) ps e) k =
     (if k \<in> set ps \<and> hasOwnProperty src k then map_of src k else map_of e k)"
  by (induction ps arbitrary: e)
     (auto simp: map_of_assign hasOwnProperty_def getProperty_def split: option.splits)

lemma map_of_transform:
  "map_of (transform e obj md) k =
     (if k \<in> set (propertyNames md) \<and> hasOwnProperty (ownProperties obj) k
      then map_of (ownProperties obj) k else map_of e k)"
  unfolding transform_def by (rule map_of_copy_fold)

lemma create_not_array:
  "(\<forall>xs. x \<noteq> JArr xs) \<Longrightarrow>
   create md x = JObj (if truthy x then transform (metadata_create md) x md else metadata_create md)"
  by (cases x) (simp_all add: Let_def)

lemma falsy_ownProperties: "\<not> truthy x \<Longrightarrow> ownProperties x = []"
  by (cases x) simp_all

text \<open>
  Claim C8. \<open>create\<close> of an array is the array of the \<open>create\<close>s of its elements, in
  order. \<open>create\<close> of any other input is one entity whose properties are exactly the
  schema properties that the input has, with the input's values: a property that the
  metadata schema does not know is never set on the result.
\<close>

theorem create_spec:
  "create md (JArr xs) = JArr (map (create md) xs)
   \<and> (\<forall>x. (\<forall>ys. x \<noteq> JArr ys) \<longrightarrow>
         (\<exists>e. create md x = JObj e
            \<and> (\<forall>k. map_of e k =
                  (if k \<in> set (propertyNames md) then map_of (ownProperties x) k else None))))"
proof (intro conjI allI impI)
  show "create md (JArr xs) = JArr (map (create md) xs)" by simp
next
  fix x assume na: "\<forall>ys. x \<noteq> JArr ys"
  let ?e = "if truthy x then transform (metadata_create md) x md else metadata_create md"
  have "create md x = JObj ?e" using na by (rule create_not_array)
  moreover have "\<forall>k. map_of ?e k =
      (if k \<in> set (propertyNames md) then map_of (ownProperties x) k else None)"
    by (auto simp: map_of_transform metadata_create_def hasOwnProperty_def falsy_ownProperties)
  ultimately show "\<exists>e. create md x = JObj e \<and> (\<forall>k. map_of e k =
      (if k \<in> set (propertyNames md) then map_of (ownProperties x) k else None))"
    by blast
qed

theorem create_spec_witness:
  "create userMetadata
      (JArr [JObj [(''x'', JNum 1), (''secret'', JNum 7)], JObj [(''y'', JNum 2)]])
     = JArr [JObj [(''x'', JNum 1)], JObj [(''y'', JNum 2)]]
   \<and> create userMetadata (JObj [(''x'', JNum 1), (''secret'', JNum 7)])
     = JObj [(''x'', JNum 1)]"
  using create_spec [of userMetadata
          "[JObj [(''x'', JNum 1), (''secret'', JNum 7)], JObj [(''y'', JNum 2)]]"]
  by (simp add: userMetadata_def transform_def metadata_create_def hasOwnProperty_def
        getProperty_def assign_def)

lemma map_of_merge_fold:
  "map_of (fold (\<lambda>object newEntity. transform newEntity (JObj object) md) objs e0) k =
     (if k \<in> set (propertyNames md)
      then (case List.find (\<lambda>obj. hasOwnProperty obj k) (rev objs) of
              None \<Rightarrow> map_of e0 k
            | Some obj \<Rightarrow> map_of obj k)
      else map_of e0 k)"
  by (induction objs arbitrary: e0 rule: rev_induct) (auto simp: map_of_transform)

text \<open>
  Claim C9. \<open>merge(...objects)\<close> gives one entity in which every schema property has the
  value of the last argument that has the property (later arguments win; there is no
  value when no argument has it), and no other property is set. The witness is the
  spec's example \<open>merge({x:1,y:2},{x:5})\<close>, with a property \<open>secret\<close> outside the schema.
\<close>

theorem merge_spec:
  "map_of (merge md objs) k =
     (if k \<in> set (propertyNames md)
      then (case List.find (\<lambda>obj. hasOwnProperty obj k) (rev objs) of
              None \<Rightarrow> None
            | Some obj \<Rightarrow> map_of obj k)
      else None)"
  unfolding merge_def
  by (simp add: map_of_merge_fold metadata_create_def split: option.splits)

theorem merge_spec_witness:
  "merge userMetadata
      [[(''x'', JNum 1), (''y'', JNum 2), (''secret'', JNum 7)], [(''x'', JNum 5)]]
     = [(''x'', JNum 5), (''y'', JNum 2)]
   \<and> map_of (merge userMetadata
        [[(''x'', JNum 1), (''y'', JNum 2), (''secret'', JNum 7)], [(''x'', JNum 5)]]) ''x''
     = Some (JNum 5)"
  using merge_spec [of userMetadata
          "[[(''x'', JNum 1), (''y'', JNum 2), (''secret'', JNum 7)], [(''x'', JNum 5)]]" "''x''"]
  by (simp add: merge_def userMetadata_def transform_def metadata_create_def
        hasOwnProperty_def getProperty_def assign_def)

subsection \<open>The find-filter helper\<close>

lemma indexOf_ge: "- 1 \<le> indexOf s c"
  by (induction s) (auto simp: Let_def)

lemma indexOf_absent: "indexOf s c = - 1 \<longleftrightarrow> c \<notin> set s"
proof (induction s)
  case Nil
  show ?case by simp
next
  case (Cons x xs)
  have "- 1 \<le> indexOf xs c" by (rule indexOf_ge)
  with Cons show ?case by (auto simp: Let_def)
qed

lemma whereOfKey_eq:
  "whereOfKey a key = (if CHR ''.'' \<in> set key then key else a @ ''.'' @ key) @ ''=:'' @ key"
  by (simp add: whereOfKey_def indexOf_absent Let_def)

lemma fold_andWhere:
  "fold (\<lambda>key q. andWhere (f key) q) ks qb
     = qb\<lparr>qb_calls := qb_calls qb @ map (\<lambda>key. AndWhere (f key)) ks\<rparr>"
  by (induction ks arbitrary: qb) (simp_all add: andWhere_def builderCall_def)

lemma createQueryBuilder_eq:
  "createQueryBuilder repo a =
     \<lparr>qb_connection = connection repo,
      qb_calls = [Select a, From (target (metadata repo)) a]\<rparr>"
  by (simp add: createQueryBuilder_def from_target_def select_def builderCall_def
        new_QueryBuilder_def)

text \<open>
  Claim C3. The find-filter helper builds this query: the alias is the alias of the
  FindOptions when one is given (as first or as second argument), else the table name;
  the builder is made with \<open>select(alias).from(target, alias)\<close>; the FindOptions, when
  given, are applied; for plain conditions every key gives one \<open>andWhere\<close> with the
  predicate \<open>name=:key\<close>, where \<open>name\<close> is the key itself when it contains a \<open>.\<close> and
  \<open>alias.key\<close> otherwise, and the whole conditions object is then bound with
  \<open>addParameters\<close>. Without arguments the query is the unfiltered one over the table,
  with the table name as alias.
\<close>

theorem createFindQueryBuilder_spec:
  "createFindQueryBuilder repo c opts =
     (let findOptions = (case c of Some (Options fo) \<Rightarrow> Some fo | _ \<Rightarrow> opts);
          theAlias = (case findOptions of
                        Some fo \<Rightarrow> fo_alias fo
                      | None \<Rightarrow> table_name (metadata repo))
      in \<lparr>qb_connection = connection repo,
          qb_calls =
            [Select theAlias, From (target (metadata repo)) theAlias]
            @ (case findOptions of Some fo \<Rightarrow> [ApplyOptions fo] | None \<Rightarrow> [])
            @ (case c of
                 Some (Conditions cs) \<Rightarrow>
                   map (\<lambda>key. AndWhere
                          ((if CHR ''.'' \<in> set key then key else theAlias @ ''.'' @ key)
                           @ ''=:'' @ key))
                       (Object_keys cs)
                   @ [AddParameters cs]
               | _ \<Rightarrow> [])\<rparr>)
   \<and> createFindQueryBuilder repo None None =
       \<lparr>qb_connection = connection repo,
        qb_calls = [Select (table_name (metadata repo)),
                    From (target (metadata repo)) (table_name (metadata repo))]\<rparr>"
proof -
  have none: "createFindQueryBuilder repo None None =
       \<lparr>qb_connection = connection repo,
        qb_calls = [Select (table_name (metadata repo)),
                    From (target (metadata repo)) (table_name (metadata repo))]\<rparr>"
    by (simp add: createFindQueryBuilder_def createQueryBuilder_eq Let_def)
  have main: "createFindQueryBuilder repo c opts =
     (let findOptions = (case c of Some (Options fo) \<Rightarrow> Some fo | _ \<Rightarrow> opts);
          theAlias = (case findOptions of
                        Some fo \<Rightarrow> fo_alias fo
                      | None \<Rightarrow> table_name (metadata repo))
      in \<lparr>qb_connection = connection repo,
          qb_calls =
            [Select theAlias, From (target (metadata repo)) theAlias]
            @ (case findOptions of Some fo \<Rightarrow> [ApplyOptions fo] | None \<Rightarrow> [])
            @ (case c of
                 Some (Conditions cs) \<Rightarrow>
                   map (\<lambda>key. AndWhere
                          ((if CHR ''.'' \<in> set key then key else theAlias @ ''.'' @ key)
                           @ ''=:'' @ key))
                       (Object_keys cs)
                   @ [AddParameters cs]
               | _ \<Rightarrow> [])\<rparr>)"
  proof (cases c)
    case None
    then show ?thesis
      by (cases opts)
         (simp_all add: Let_def createFindQueryBuilder_def createQueryBuilder_eq
            applyOptionsToQueryBuilder_def builderCall_def)
  next
    case (Some x)
    show ?thesis
    proof (cases x)
      case (Conditions cs)
      with Some show ?thesis
        by (cases opts)
           (simp_all add: Let_def createFindQueryBuilder_def createQueryBuilder_eq fold_andWhere
              applyOptionsToQueryBuilder_def addParameters_def builderCall_def whereOfKey_eq)
    next
      case (Options fo)
      with Some show ?thesis
        by (simp add: Let_def createFindQueryBuilder_def createQueryBuilder_eq
              applyOptionsToQueryBuilder_def builderCall_def)
    qed
  qed
  from main none show ?thesis by (rule conjI)
qed

theorem createFindQueryBuilder_spec_witness:
  "createFindQueryBuilder userRepository (Some (Conditions [(''name'', JStr ''a'')]))
      (Some \<lparr>fo_alias = ''u'', settings = [(''maxResults'', JNum 10)]\<rparr>)
     = \<lparr>qb_connection = \<lparr>driver = JRef 100\<rparr>,
        qb_calls = [Select ''u'', From (JRef 1) ''u'',
                    ApplyOptions \<lparr>fo_alias = ''u'', settings = [(''maxResults'', JNum 10)]\<rparr>,
                    AndWhere ''u.name=:name'',
                    AddParameters [(''name'', JStr ''a'')]]\<rparr>
   \<and> createFindQueryBuilder userRepository None None
     = \<lparr>qb_connection = \<lparr>driver = JRef 100\<rparr>,
        qb_calls = [Select ''user'', From (JRef 1) ''user'']\<rparr>"
  using createFindQueryBuilder_spec [of userRepository "Some (Conditions [(''name'', JStr ''a'')])"
          "Some \<lparr>fo_alias = ''u'', settings = [(''maxResults'', JNum 10)]\<rparr>"]
  by (simp add: userRepository_def userMetadata_def Object_keys_def Let_def)

text \<open>
  Claim C10. When the first argument of \<open>find\<close>, \<open>findAndCount\<close> or \<open>findOne\<close> is a
  FindOptions, a second options argument changes nothing: the builder gets the calls
  \<open>select\<close>, \<open>from\<close> and the application of the first options only, no condition
  predicate, and each of the three methods is the same operation as without the second
  argument.
\<close>

theorem find_second_options_ignored:
  "createFindQueryBuilder repo (Some (Options a)) (Some b)
     = createFindQueryBuilder repo (Some (Options a)) None
   \<and> qb_calls (createFindQueryBuilder repo (Some (Options a)) (Some b))
     = [Select (fo_alias a), From (target (metadata repo)) (fo_alias a), ApplyOptions a]
   \<and> find_entities repo (Some (Options a)) (Some b) = find_entities repo (Some (Options a)) None
   \<and> findAndCount repo (Some (Options a)) (Some b) = findAndCount repo (Some (Options a)) None
   \<and> findOne repo (Some (Options a)) (Some b) = findOne repo (Some (Options a)) None"
  by (simp add: Let_def find_entities_def findAndCount_def findOne_def createFindQueryBuilder_def
        createQueryBuilder_eq applyOptionsToQueryBuilder_def builderCall_def)

text \<open>
  Claim C4. For a composite key, \<open>findOneById\<close> reads the id by the column name in the
  loop over the primary columns and by the property name in the loop over the parent id
  columns. An id that gives a value per property is therefore bound to the parent id
  column, but the primary-key columns are bound to \<open>undefined\<close> when their names differ
  from their properties' names.
\<close>

theorem findOneById_composite_reads_column_name:
  "findOneById_conditions membershipMetadata
      (JObj [(''userId'', JNum 1), (''orgId'', JNum 2), (''parentId'', JNum 9)])
     = Inr [(''user_id'', JUndefined), (''org_id'', JUndefined), (''parent_id'', JNum 9)]"
  by (simp add: findOneById_conditions_def membershipMetadata_def getProperty_def assign_def)

lemma findOneById_single:
  "\<not> hasMultiplePrimaryKeys md \<Longrightarrow>
   findOneById_conditions md ident =
     Inr (if primaryColumns md \<noteq> [] then [(name (firstPrimaryColumn md), ident)]
          else if parentIdColumns md \<noteq> [] then [(name (hd (parentIdColumns md)), ident)]
          else [])"
  by (auto simp: findOneById_conditions_def assign_def hd_conv_nth)

lemma findOneById_delegates:
  "findOneById_conditions (metadata repo) ident = Inr conditions \<Longrightarrow>
   findOneById repo ident opts = findOne repo (Some (Conditions conditions)) opts"
  by (simp add: findOneById_def findOne_def)

text \<open>
  Without a composite key, \<open>findOneById\<close> is \<open>findOne\<close> on the single condition that
  binds the id to the name of the first primary column, or, when there is no primary
  column, to the name of the first parent id column; with neither, on no condition. The
  witness is the spec's example \<open>findOneById(5)\<close> on an entity with the primary key \<open>id\<close>.
\<close>

theorem findOneById_scalar:
  assumes "\<not> hasMultiplePrimaryKeys (metadata repo)"
  shows "findOneById repo ident opts =
     findOne repo
       (Some (Conditions
          (if primaryColumns (metadata repo) \<noteq> []
           then [(name (firstPrimaryColumn (metadata repo)), ident)]
           else if parentIdColumns (metadata repo) \<noteq> []
           then [(name (hd (parentIdColumns (metadata repo))), ident)]
           else [])))
       opts"
  using assms by (simp add: findOneById_def findOne_def findOneById_single)

theorem findOneById_scalar_witness:
  "\<not> hasMultiplePrimaryKeys (metadata userRepository)
   \<and> findOneById userRepository (JNum 5) None =
     call (GetSingleResult
       \<lparr>qb_connection = \<lparr>driver = JRef 100\<rparr>,
        qb_calls = [Select ''user'', From (JRef 1) ''user'', AndWhere ''user.id=:id'',
                    AddParameters [(''id'', JNum 5)]]\<rparr>)"
proof -
  have h: "\<not> hasMultiplePrimaryKeys (metadata userRepository)"
    by (simp add: userRepository_def userMetadata_def)
  from findOneById_scalar [OF h, of "JNum 5" None] h show ?thesis
    by (simp add: findOne_def createFindQueryBuilder_def createQueryBuilder_eq Let_def
          fold_andWhere whereOfKey_eq addParameters_def andWhere_def builderCall_def Object_keys_def
          userRepository_def userMetadata_def)
qed

section \<open>Properties of the asynchronous operations\<close>

subsection \<open>Running the combinators\<close>

lemma exec_call: "exec w (call c) s = (case w c s of (r, s') \<Rightarrow> (r, [(c, r)], s'))"
  by (simp add: call_def split: prod.splits)

lemma exec_bind:
  "exec w (bind m f) s =
     (case exec w m s of
        (Inl e, t, s') \<Rightarrow> (Inl e, t, s')
      | (Inr v, t, s') \<Rightarrow> (case exec w (f v) s' of (r, t', s'') \<Rightarrow> (r, t @ t', s'')))"
  by (induction m arbitrary: s) (auto split: prod.splits sum.splits)

lemma exec_tryCatch:
  "exec w (tryCatch m h) s =
     (case exec w m s of
        (Inl e, t, s') \<Rightarrow> (case exec w (h e) s' of (r, t', s'') \<Rightarrow> (r, t @ t', s''))
      | (Inr v, t, s') \<Rightarrow> (Inr v, t, s'))"
  by (induction m arbitrary: s) (auto split: prod.splits sum.splits)

lemma exec_tryFinally:
  "exec w (tryFinally m c) s =
     (case exec w m s of (r, t, s') \<Rightarrow>
        (case exec w c s' of
           (Inl e, t', s'') \<Rightarrow> (Inl e, t @ t', s'')
         | (Inr v, t', s'') \<Rightarrow> (r, t @ t', s'')))"
  by (induction m arbitrary: s) (auto simp: exec_bind split: prod.splits sum.splits)

subsection \<open>Leasing a query runner\<close>

lemma exec_leased:
  assumes "exec w acquire s0 = (Inr p, t0, s1)"
    and "w (Provide p) s1 = (Inr qr, s2)"
    and "w (d qr) s2 = (rd, s3)"
    and "w (Release p qr) s3 = (rl, s4)"
  shows "exec w (bind acquire (\<lambda>provider. bind (call (Provide provider)) (\<lambda>queryRunner.
            tryFinally (call (d queryRunner)) (call (Release provider queryRunner))))) s0
         = ((case rl of Inl e \<Rightarrow> Inl e | Inr u \<Rightarrow> rd),
            t0 @ [(Provide p, Inr qr), (d qr, rd), (Release p qr, rl)], s4)"
  using assms by (simp add: exec_bind exec_tryFinally exec_call split: sum.splits)

lemma exec_not_leased:
  assumes "exec w acquire s0 = (Inr p, t0, s1)"
    and "w (Provide p) s1 = (Inl e, s2)"
  shows "exec w (bind acquire (\<lambda>provider. bind (call (Provide provider)) k)) s0
         = (Inl e, t0 @ [(Provide p, Inl e)], s2)"
  using assms by (simp add: exec_bind exec_call)

lemma exec_transactionFinally:
  "exec w (transactionFinally repo p qr) s =
     (case w (Release p qr) s of
        (Inl e, s') \<Rightarrow> (Inl e, [(Release p qr, Inl e)], s')
      | (Inr u, s') \<Rightarrow>
          (if queryRunnerProvider repo = None
           then (case w (ReleaseReused p) s' of
                   (r, s'') \<Rightarrow> (r, [(Release p qr, Inr u), (ReleaseReused p, r)], s''))
           else (Inr JUndefined, [(Release p qr, Inr u)], s')))"
  by (simp add: transactionFinally_def exec_bind exec_call split: prod.splits sum.splits)

lemma exec_transactionTry_begun:
  assumes "w (BeginTransaction qr) s = (Inr b, s1)"
    and "exec w (work txr) s1 = (rw, tw, s2)"
    and "w (case rw of Inl e \<Rightarrow> RollbackTransaction qr | Inr v \<Rightarrow> CommitTransaction qr) s2
           = (Inr c, s3)"
  shows "exec w (transactionTry qr txr work) s
         = (rw, [(BeginTransaction qr, Inr b)] @ tw
                @ [(case rw of Inl e \<Rightarrow> RollbackTransaction qr | Inr v \<Rightarrow> CommitTransaction qr,
                    Inr c)], s3)"
  using assms
  by (cases rw) (simp_all add: transactionTry_def exec_tryCatch exec_bind exec_call)

lemma exec_transactionTry_rollback_fails:
  assumes "w (BeginTransaction qr) s = (Inr b, s1)"
    and "exec w (work txr) s1 = (Inl e1, tw, s2)"
    and "w (RollbackTransaction qr) s2 = (Inl e2, s3)"
  shows "exec w (transactionTry qr txr work) s
         = (Inl e2, [(BeginTransaction qr, Inr b)] @ tw @ [(RollbackTransaction qr, Inl e2)], s3)"
  using assms
  by (simp_all add: transactionTry_def exec_tryCatch exec_bind exec_call)

lemma exec_transaction_blocks:
  assumes "exec w (providerOrNew repo (Some True)) s0 = (Inr p, t0, s1)"
    and "w (Provide p) s1 = (Inr qr, s2)"
    and "exec w (transactionTry qr \<lparr>connection = connection repo, metadata = metadata repo,
                    queryRunnerProvider = Some p\<rparr> work) s2 = (rd, td, s3)"
    and "exec w (transactionFinally repo p qr) s3 = (rf, tf, s4)"
  shows "exec w (transaction repo work) s0
         = ((case rf of Inl e \<Rightarrow> Inl e | Inr u \<Rightarrow> rd), t0 @ [(Provide p, Inr qr)] @ td @ tf, s4)"
  using assms
  by (simp add: transaction_def exec_bind exec_call exec_tryFinally Let_def split: sum.splits)

lemma exec_providerOrNew:
  "exec w (providerOrNew repo flag) s =
     (case queryRunnerProvider repo of
        Some p \<Rightarrow> (Inr p, [], s)
      | None \<Rightarrow>
          (case w (NewQueryRunnerProvider (driver (connection repo)) flag) s of
             (r, s') \<Rightarrow> (r, [(NewQueryRunnerProvider (driver (connection repo)) flag, r)], s')))"
  by (simp add: providerOrNew_def exec_call split: option.splits)

text \<open>
  Claim C1. A run of \<open>transaction(work)\<close> in which the provider's and the runner's own
  calls succeed: the provider is the one the repository was constructed with, or a new one
  when there is none; \<open>provide\<close> on it gives the runner; the transaction is begun; \<open>work\<close>
  is run on a repository bound to that same provider; then \<open>commit\<close> when \<open>work\<close>
  returned and \<open>rollback\<close> when it threw; then the runner is released on the provider;
  then \<open>releaseReused\<close> is called iff the repository was constructed without a provider.
  The completion of \<open>transaction\<close> is the completion of \<open>work\<close>: its result, or its
  error. (A failing rollback is claim C7; the cleanup after every outcome of the
  try/catch block is in claim C2.)
\<close>

theorem transaction_lifecycle:
  assumes "exec w (providerOrNew repo (Some True)) s0 = (Inr p, t0, s1)"
    and "w (Provide p) s1 = (Inr qr, s2)"
    and "w (BeginTransaction qr) s2 = (Inr b, s3)"
    and "exec w (work \<lparr>connection = connection repo, metadata = metadata repo,
                          queryRunnerProvider = Some p\<rparr>) s3 = (rw, tw, s4)"
    and "w (case rw of Inl e \<Rightarrow> RollbackTransaction qr | Inr v \<Rightarrow> CommitTransaction qr) s4
           = (Inr c, s5)"
    and "w (Release p qr) s5 = (Inr u, s6)"
    and "queryRunnerProvider repo = None \<Longrightarrow> w (ReleaseReused p) s6 = (Inr u', s7)"
  shows "exec w (transaction repo work) s0 =
           (rw,
            t0 @ [(Provide p, Inr qr), (BeginTransaction qr, Inr b)] @ tw
               @ [(case rw of Inl e \<Rightarrow> RollbackTransaction qr | Inr v \<Rightarrow> CommitTransaction qr,
                   Inr c),
                  (Release p qr, Inr u)]
               @ (if queryRunnerProvider repo = None then [(ReleaseReused p, Inr u')] else []),
            if queryRunnerProvider repo = None then s7 else s6)
         \<and> (case queryRunnerProvider repo of
               Some q \<Rightarrow> p = q \<and> t0 = []
             | None \<Rightarrow> t0 = [(NewQueryRunnerProvider (driver (connection repo)) (Some True), Inr p)])"
proof
  have tryrun: "exec w (transactionTry qr \<lparr>connection = connection repo, metadata = metadata repo,
                    queryRunnerProvider = Some p\<rparr> work) s2
      = (rw, [(BeginTransaction qr, Inr b)] @ tw
                @ [(case rw of Inl e \<Rightarrow> RollbackTransaction qr | Inr v \<Rightarrow> CommitTransaction qr,
                    Inr c)], s5)"
    using assms(3,4,5) by (rule exec_transactionTry_begun)
  have finrun: "exec w (transactionFinally repo p qr) s5
      = (if queryRunnerProvider repo = None
         then (Inr u', [(Release p qr, Inr u), (ReleaseReused p, Inr u')], s7)
         else (Inr JUndefined, [(Release p qr, Inr u)], s6))"
    using assms(6,7) by (simp add: exec_transactionFinally)
  show "exec w (transaction repo work) s0 =
           (rw,
            t0 @ [(Provide p, Inr qr), (BeginTransaction qr, Inr b)] @ tw
               @ [(case rw of Inl e \<Rightarrow> RollbackTransaction qr | Inr v \<Rightarrow> CommitTransaction qr,
                   Inr c),
                  (Release p qr, Inr u)]
               @ (if queryRunnerProvider repo = None then [(ReleaseReused p, Inr u')] else []),
            if queryRunnerProvider repo = None then s7 else s6)"
  proof (cases "queryRunnerProvider repo = None")
    case True
    with finrun have "exec w (transactionFinally repo p qr) s5
        = (Inr u', [(Release p qr, Inr u), (ReleaseReused p, Inr u')], s7)" by simp
    from exec_transaction_blocks [OF assms(1,2) tryrun this] True show ?thesis by simp
  next
    case False
    with finrun have "exec w (transactionFinally repo p qr) s5
        = (Inr JUndefined, [(Release p qr, Inr u)], s6)" by simp
    from exec_transaction_blocks [OF assms(1,2) tryrun this] False show ?thesis by simp
  qed
next
  show "case queryRunnerProvider repo of
               Some q \<Rightarrow> p = q \<and> t0 = []
             | None \<Rightarrow> t0 = [(NewQueryRunnerProvider (driver (connection repo)) (Some True), Inr p)]"
    using assms(1) by (auto simp: exec_providerOrNew split: option.splits prod.splits)
qed


lemma userRepository_simps:
  "connection userRepository = \<lparr>driver = JRef 100\<rparr>"
  "metadata userRepository = userMetadata"
  "queryRunnerProvider userRepository = None"
  by (simp_all add: userRepository_def)

lemma exec_persistThenThrow:
  "exec (stubWorld demoAnswer)
        (persistThenThrow \<lparr>connection = c, metadata = m, queryRunnerProvider = Some p\<rparr>) n
   = (Inl (JStr ''Error''),
      [(Provide p, Inr (JRef 8)),
       (PersisterPersist c m (JRef 8) (JObj [(''id'', JNum 1)]), Inr (JObj [(''id'', JNum 1)])),
       (Release p (JRef 8), Inr JUndefined)],
      Suc (Suc (Suc n)))"
  by (simp add: persistThenThrow_def persistOne_def exec_bind exec_tryFinally exec_call
        exec_providerOrNew stubWorld_def)

theorem transaction_lifecycle_witness:
  "exec (stubWorld demoAnswer) (providerOrNew userRepository (Some True)) 0
     = (Inr (JRef 7), [(NewQueryRunnerProvider (JRef 100) (Some True), Inr (JRef 7))], 1)
   \<and> stubWorld demoAnswer (Provide (JRef 7)) 1 = (Inr (JRef 8), 2)
   \<and> stubWorld demoAnswer (BeginTransaction (JRef 8)) 2 = (Inr JUndefined, 3)
   \<and> exec (stubWorld demoAnswer)
        (persistThenThrow \<lparr>connection = \<lparr>driver = JRef 100\<rparr>, metadata = userMetadata,
                            queryRunnerProvider = Some (JRef 7)\<rparr>) 3
     = (Inl (JStr ''Error''),
        [(Provide (JRef 7), Inr (JRef 8)),
         (PersisterPersist \<lparr>driver = JRef 100\<rparr> userMetadata (JRef 8) (JObj [(''id'', JNum 1)]),
          Inr (JObj [(''id'', JNum 1)])),
         (Release (JRef 7) (JRef 8), Inr JUndefined)], 6)
   \<and> stubWorld demoAnswer (RollbackTransaction (JRef 8)) 6 = (Inr JUndefined, 7)
   \<and> stubWorld demoAnswer (Release (JRef 7) (JRef 8)) 7 = (Inr JUndefined, 8)
   \<and> stubWorld demoAnswer (ReleaseReused (JRef 7)) 8 = (Inr JUndefined, 9)
   \<and> exec (stubWorld demoAnswer) (transaction userRepository persistThenThrow) 0
     = (Inl (JStr ''Error''),
        [(NewQueryRunnerProvider (JRef 100) (Some True), Inr (JRef 7)),
         (Provide (JRef 7), Inr (JRef 8)),
         (BeginTransaction (JRef 8), Inr JUndefined),
         (Provide (JRef 7), Inr (JRef 8)),
         (PersisterPersist \<lparr>driver = JRef 100\<rparr> userMetadata (JRef 8) (JObj [(''id'', JNum 1)]),
          Inr (JObj [(''id'', JNum 1)])),
         (Release (JRef 7) (JRef 8), Inr JUndefined),
         (RollbackTransaction (JRef 8), Inr JUndefined),
         (Release (JRef 7) (JRef 8), Inr JUndefined),
         (ReleaseReused (JRef 7), Inr JUndefined)],
        9)"
proof -
  have h1: "exec (stubWorld demoAnswer) (providerOrNew userRepository (Some True)) 0
     = (Inr (JRef 7), [(NewQueryRunnerProvider (JRef 100) (Some True), Inr (JRef 7))], 1)"
    by (simp add: exec_providerOrNew userRepository_simps stubWorld_def)
  have h2: "stubWorld demoAnswer (Provide (JRef 7)) 1 = (Inr (JRef 8), 2)"
    by (simp add: stubWorld_def)
  have h3: "stubWorld demoAnswer (BeginTransaction (JRef 8)) 2 = (Inr JUndefined, 3)"
    by (simp add: stubWorld_def)
  have h4: "exec (stubWorld demoAnswer)
        (persistThenThrow \<lparr>connection = connection userRepository,
                            metadata = metadata userRepository,
                            queryRunnerProvider = Some (JRef 7)\<rparr>) 3
     = (Inl (JStr ''Error''),
        [(Provide (JRef 7), Inr (JRef 8)),
         (PersisterPersist \<lparr>driver = JRef 100\<rparr> userMetadata (JRef 8) (JObj [(''id'', JNum 1)]),
          Inr (JObj [(''id'', JNum 1)])),
         (Release (JRef 7) (JRef 8), Inr JUndefined)], 6)"
    by (simp add: exec_persistThenThrow userRepository_simps)
  have h5: "stubWorld demoAnswer
        (case (Inl (JStr ''Error'') :: completion) of
           Inl e \<Rightarrow> RollbackTransaction (JRef 8) | Inr v \<Rightarrow> CommitTransaction (JRef 8)) 6
      = (Inr JUndefined, 7)"
    by (simp add: stubWorld_def)
  have h6: "stubWorld demoAnswer (Release (JRef 7) (JRef 8)) 7 = (Inr JUndefined, 8)"
    by (simp add: stubWorld_def)
  have h7: "stubWorld demoAnswer (ReleaseReused (JRef 7)) 8 = (Inr JUndefined, 9)"
    by (simp add: stubWorld_def)
  from transaction_lifecycle [where work = persistThenThrow, OF h1 h2 h3 h4 h5 h6 h7] h1 h2 h3 h4 h5 h6 h7
  show ?thesis by (simp add: userRepository_simps)
qed

text \<open>
  Claim C7. When \<open>work\<close> throws \<open>e1\<close> and the rollback then throws \<open>e2\<close>, the rollback's
  error is not suppressed: \<open>transaction\<close> completes with \<open>e2\<close>, whatever \<open>e1\<close> was, no
  commit is attempted, and the runner is still released after the failed rollback
  (with \<open>releaseReused\<close> for a provider of the repository's own).
\<close>

theorem transaction_rollback_failure:
  assumes "exec w (providerOrNew repo (Some True)) s0 = (Inr p, t0, s1)"
    and "w (Provide p) s1 = (Inr qr, s2)"
    and "w (BeginTransaction qr) s2 = (Inr b, s3)"
    and "exec w (work \<lparr>connection = connection repo, metadata = metadata repo,
                          queryRunnerProvider = Some p\<rparr>) s3 = (Inl e1, tw, s4)"
    and "w (RollbackTransaction qr) s4 = (Inl e2, s5)"
    and "w (Release p qr) s5 = (Inr u, s6)"
    and "queryRunnerProvider repo = None \<Longrightarrow> w (ReleaseReused p) s6 = (Inr u', s7)"
  shows "exec w (transaction repo work) s0 =
           (Inl e2,
            t0 @ [(Provide p, Inr qr), (BeginTransaction qr, Inr b)] @ tw
               @ [(RollbackTransaction qr, Inl e2), (Release p qr, Inr u)]
               @ (if queryRunnerProvider repo = None then [(ReleaseReused p, Inr u')] else []),
            if queryRunnerProvider repo = None then s7 else s6)"
proof -
  have tryrun: "exec w (transactionTry qr \<lparr>connection = connection repo,
                    metadata = metadata repo, queryRunnerProvider = Some p\<rparr> work) s2
      = (Inl e2, [(BeginTransaction qr, Inr b)] @ tw @ [(RollbackTransaction qr, Inl e2)], s5)"
    using assms(3,4,5) by (rule exec_transactionTry_rollback_fails)
  show ?thesis
  proof (cases "queryRunnerProvider repo = None")
    case True
    with assms(6,7) have "exec w (transactionFinally repo p qr) s5
        = (Inr u', [(Release p qr, Inr u), (ReleaseReused p, Inr u')], s7)"
      by (simp add: exec_transactionFinally)
    from exec_transaction_blocks [OF assms(1,2) tryrun this] True show ?thesis by simp
  next
    case False
    from assms(6) have "exec w (transactionFinally repo p qr) s5
        = (Inr JUndefined, [(Release p qr, Inr u)], s6)"
      by (simp add: exec_transactionFinally False)
    from exec_transaction_blocks [OF assms(1,2) tryrun this] False show ?thesis by simp
  qed
qed

theorem transaction_rollback_failure_witness:
  "exec (stubWorld rollbackFails) (providerOrNew userRepository (Some True)) 0
     = (Inr (JRef 7), [(NewQueryRunnerProvider (JRef 100) (Some True), Inr (JRef 7))], 1)
   \<and> stubWorld rollbackFails (Provide (JRef 7)) 1 = (Inr (JRef 8), 2)
   \<and> stubWorld rollbackFails (BeginTransaction (JRef 8)) 2 = (Inr JUndefined, 3)
   \<and> exec (stubWorld rollbackFails)
        ((\<lambda>r. Settled (Inl (JStr ''Error'')))
           \<lparr>connection = \<lparr>driver = JRef 100\<rparr>, metadata = userMetadata,
            queryRunnerProvider = Some (JRef 7)\<rparr>) 3
     = (Inl (JStr ''Error''), [], 3)
   \<and> stubWorld rollbackFails (RollbackTransaction (JRef 8)) 3 = (Inl (JStr ''connection lost''), 4)
   \<and> stubWorld rollbackFails (Release (JRef 7) (JRef 8)) 4 = (Inr JUndefined, 5)
   \<and> stubWorld rollbackFails (ReleaseReused (JRef 7)) 5 = (Inr JUndefined, 6)
   \<and> exec (stubWorld rollbackFails)
        (transaction userRepository (\<lambda>r. Settled (Inl (JStr ''Error'')))) 0
     = (Inl (JStr ''connection lost''),
        [(NewQueryRunnerProvider (JRef 100) (Some True), Inr (JRef 7)),
         (Provide (JRef 7), Inr (JRef 8)),
         (BeginTransaction (JRef 8), Inr JUndefined),
         (RollbackTransaction (JRef 8), Inl (JStr ''connection lost'')),
         (Release (JRef 7) (JRef 8), Inr JUndefined),
         (ReleaseReused (JRef 7), Inr JUndefined)],
        6)"
proof -
  have h1: "exec (stubWorld rollbackFails) (providerOrNew userRepository (Some True)) 0
     = (Inr (JRef 7), [(NewQueryRunnerProvider (JRef 100) (Some True), Inr (JRef 7))], 1)"
    by (simp add: exec_providerOrNew userRepository_simps stubWorld_def rollbackFails_def)
  have h2: "stubWorld rollbackFails (Provide (JRef 7)) 1 = (Inr (JRef 8), 2)"
    by (simp add: stubWorld_def rollbackFails_def)
  have h3: "stubWorld rollbackFails (BeginTransaction (JRef 8)) 2 = (Inr JUndefined, 3)"
    by (simp add: stubWorld_def rollbackFails_def)
  have h4: "exec (stubWorld rollbackFails)
        ((\<lambda>r. Settled (Inl (JStr ''Error'')))
           \<lparr>connection = connection userRepository, metadata = metadata userRepository,
            queryRunnerProvider = Some (JRef 7)\<rparr>) 3
     = (Inl (JStr ''Error''), [], 3)"
    by simp
  have h5: "stubWorld rollbackFails (RollbackTransaction (JRef 8)) 3
      = (Inl (JStr ''connection lost''), 4)"
    by (simp add: stubWorld_def rollbackFails_def)
  have h6: "stubWorld rollbackFails (Release (JRef 7) (JRef 8)) 4 = (Inr JUndefined, 5)"
    by (simp add: stubWorld_def rollbackFails_def)
  have h7: "stubWorld rollbackFails (ReleaseReused (JRef 7)) 5 = (Inr JUndefined, 6)"
    by (simp add: stubWorld_def rollbackFails_def)
  from transaction_rollback_failure [where work = "\<lambda>r. Settled (Inl (JStr ''Error''))", OF h1 h2 h3 h4 h5 h6 h7] h1 h2 h3 h4 h5 h6 h7
  show ?thesis by (simp add: userRepository_simps)
qed


lemma exec_persistOne:
  assumes "exec w (providerOrNew repo None) s0 = (Inr p, t0, s1)"
    and "w (Provide p) s1 = (Inr qr, s2)"
    and "w (PersisterPersist (connection repo) (metadata repo) qr entity) s2 = (rd, s3)"
    and "w (Release p qr) s3 = (rl, s4)"
  shows "exec w (persistOne repo entity) s0
         = ((case rl of Inl e \<Rightarrow> Inl e | Inr u \<Rightarrow> rd),
            t0 @ [(Provide p, Inr qr),
                  (PersisterPersist (connection repo) (metadata repo) qr entity, rd),
                  (Release p qr, rl)], s4)"
  unfolding persistOne_def using assms by (rule exec_leased)

lemma exec_removeOne:
  assumes "exec w (providerOrNew repo (Some True)) s0 = (Inr p, t0, s1)"
    and "w (Provide p) s1 = (Inr qr, s2)"
    and "w (PersisterRemove (connection repo) (metadata repo) qr entity) s2 = (rd, s3)"
    and "w (Release p qr) s3 = (rl, s4)"
  shows "exec w (removeOne repo entity) s0
         = ((case rl of Inl e \<Rightarrow> Inl e | Inr u \<Rightarrow> rd),
            t0 @ [(Provide p, Inr qr),
                  (PersisterRemove (connection repo) (metadata repo) qr entity, rd),
                  (Release p qr, rl)], s4)"
  unfolding removeOne_def using assms by (rule exec_leased)

lemma exec_query:
  assumes "exec w (providerOrNew repo None) s0 = (Inr p, t0, s1)"
    and "w (Provide p) s1 = (Inr qr, s2)"
    and "w (RunnerQuery qr sql) s2 = (rd, s3)"
    and "w (Release p qr) s3 = (rl, s4)"
  shows "exec w (query repo sql) s0
         = ((case rl of Inl e \<Rightarrow> Inl e | Inr u \<Rightarrow> rd),
            t0 @ [(Provide p, Inr qr), (RunnerQuery qr sql, rd), (Release p qr, rl)], s4)"
  unfolding query_def using assms by (rule exec_leased [where d = "\<lambda>r. RunnerQuery r sql"])

lemma exec_transaction_released:
  assumes "exec w (providerOrNew repo (Some True)) s0 = (Inr p, t0, s1)"
    and "w (Provide p) s1 = (Inr qr, s2)"
    and "exec w (transactionTry qr \<lparr>connection = connection repo, metadata = metadata repo,
                    queryRunnerProvider = Some p\<rparr> work) s2 = (rd, td, s3)"
    and "w (Release p qr) s3 = (rl, s4)"
    and "w (ReleaseReused p) s4 = (rr, s5)"
  shows "exec w (transaction repo work) s0
         = ((case rl of
               Inl e \<Rightarrow> Inl e
             | Inr u \<Rightarrow>
                 (if queryRunnerProvider repo = None
                  then (case rr of Inl e \<Rightarrow> Inl e | Inr u' \<Rightarrow> rd) else rd)),
            t0 @ [(Provide p, Inr qr)] @ td @ [(Release p qr, rl)]
               @ (if queryRunnerProvider repo = None \<and> \<not> isl rl
                  then [(ReleaseReused p, rr)] else []),
            if queryRunnerProvider repo = None \<and> \<not> isl rl then s5 else s4)"
proof -
  obtain rf tf sf where f: "exec w (transactionFinally repo p qr) s3 = (rf, tf, sf)"
    by (cases "exec w (transactionFinally repo p qr) s3") auto
  have *: "exec w (transaction repo work) s0
         = ((case rf of Inl e \<Rightarrow> Inl e | Inr u \<Rightarrow> rd), t0 @ [(Provide p, Inr qr)] @ td @ tf, sf)"
    using assms(1,2,3) f by (rule exec_transaction_blocks)
  from f assms(4,5) show ?thesis unfolding *
    by (cases rl; cases rr; cases "queryRunnerProvider repo = None")
       (auto simp: exec_transactionFinally)
qed

lemma exec_persistOne_not_leased:
  assumes "exec w (providerOrNew repo None) s0 = (Inr p, t0, s1)"
    and "w (Provide p) s1 = (Inl e, s2)"
  shows "exec w (persistOne repo entity) s0 = (Inl e, t0 @ [(Provide p, Inl e)], s2)"
  unfolding persistOne_def using assms by (simp add: exec_bind exec_call)

lemma exec_removeOne_not_leased:
  assumes "exec w (providerOrNew repo (Some True)) s0 = (Inr p, t0, s1)"
    and "w (Provide p) s1 = (Inl e, s2)"
  shows "exec w (removeOne repo entity) s0 = (Inl e, t0 @ [(Provide p, Inl e)], s2)"
  unfolding removeOne_def using assms by (simp add: exec_bind exec_call)

lemma exec_query_not_leased:
  assumes "exec w (providerOrNew repo None) s0 = (Inr p, t0, s1)"
    and "w (Provide p) s1 = (Inl e, s2)"
  shows "exec w (query repo sql) s0 = (Inl e, t0 @ [(Provide p, Inl e)], s2)"
  unfolding query_def using assms by (simp add: exec_bind exec_call)

lemma exec_transaction_not_leased:
  assumes "exec w (providerOrNew repo (Some True)) s0 = (Inr p, t0, s1)"
    and "w (Provide p) s1 = (Inl e, s2)"
  shows "exec w (transaction repo work) s0 = (Inl e, t0 @ [(Provide p, Inl e)], s2)"
  unfolding transaction_def using assms by (simp add: exec_bind exec_call)

text \<open>
  Claim C2. In \<open>persist\<close> and \<open>remove\<close> of one entity, in \<open>query\<close> and in
  \<open>transaction\<close>, a successful \<open>provide\<close> is followed by the delegated step and then by
  exactly one \<open>release\<close> of that runner on that provider, whether the delegated step
  returned (\<open>rd = Inr v\<close>) or threw (\<open>rd = Inl e\<close>); the operation completes with the
  completion \<open>rd\<close> of the delegated step, unchanged, when the cleanup itself ends
  normally, and with the cleanup's error otherwise. For \<open>transaction\<close> the delegated step
  is the try/catch block, which completes as \<open>work\<close> does when begin and commit or
  rollback succeed. A \<open>provide\<close> that fails is followed by no call at all.
\<close>

theorem release_exactly_once:
  "(exec w (providerOrNew repo None) s0 = (Inr p, t0, s1)
      \<and> w (Provide p) s1 = (Inr qr, s2)
      \<and> w (PersisterPersist (connection repo) (metadata repo) qr entity) s2 = (rd, s3)
      \<and> w (Release p qr) s3 = (rl, s4)
    \<longrightarrow> exec w (persistOne repo entity) s0
         = ((case rl of Inl e \<Rightarrow> Inl e | Inr u \<Rightarrow> rd),
            t0 @ [(Provide p, Inr qr),
                  (PersisterPersist (connection repo) (metadata repo) qr entity, rd),
                  (Release p qr, rl)], s4))
   \<and> (exec w (providerOrNew repo (Some True)) s0 = (Inr p, t0, s1)
      \<and> w (Provide p) s1 = (Inr qr, s2)
      \<and> w (PersisterRemove (connection repo) (metadata repo) qr entity) s2 = (rd, s3)
      \<and> w (Release p qr) s3 = (rl, s4)
    \<longrightarrow> exec w (removeOne repo entity) s0
         = ((case rl of Inl e \<Rightarrow> Inl e | Inr u \<Rightarrow> rd),
            t0 @ [(Provide p, Inr qr),
                  (PersisterRemove (connection repo) (metadata repo) qr entity, rd),
                  (Release p qr, rl)], s4))
   \<and> (exec w (providerOrNew repo None) s0 = (Inr p, t0, s1)
      \<and> w (Provide p) s1 = (Inr qr, s2)
      \<and> w (RunnerQuery qr sql) s2 = (rd, s3)
      \<and> w (Release p qr) s3 = (rl, s4)
    \<longrightarrow> exec w (query repo sql) s0
         = ((case rl of Inl e \<Rightarrow> Inl e | Inr u \<Rightarrow> rd),
            t0 @ [(Provide p, Inr qr), (RunnerQuery qr sql, rd), (Release p qr, rl)], s4))
   \<and> (exec w (providerOrNew repo (Some True)) s0 = (Inr p, t0, s1)
      \<and> w (Provide p) s1 = (Inr qr, s2)
      \<and> exec w (transactionTry qr \<lparr>connection = connection repo, metadata = metadata repo,
                    queryRunnerProvider = Some p\<rparr> work) s2 = (rd, td, s3)
      \<and> w (Release p qr) s3 = (rl, s4)
      \<and> w (ReleaseReused p) s4 = (rr, s5)
    \<longrightarrow> exec w (transaction repo work) s0
         = ((case rl of
               Inl e \<Rightarrow> Inl e
             | Inr u \<Rightarrow>
                 (if queryRunnerProvider repo = None
                  then (case rr of Inl e \<Rightarrow> Inl e | Inr u' \<Rightarrow> rd) else rd)),
            t0 @ [(Provide p, Inr qr)] @ td @ [(Release p qr, rl)]
               @ (if queryRunnerProvider repo = None \<and> \<not> isl rl
                  then [(ReleaseReused p, rr)] else []),
            if queryRunnerProvider repo = None \<and> \<not> isl rl then s5 else s4))
   \<and> (w (BeginTransaction qr) s2 = (Inr b, sb)
      \<and> exec w (work txr) sb = (rw, tw, sw)
      \<and> w (case rw of Inl e \<Rightarrow> RollbackTransaction qr | Inr v \<Rightarrow> CommitTransaction qr) sw
          = (Inr c, s3)
    \<longrightarrow> exec w (transactionTry qr txr work) s2
         = (rw, [(BeginTransaction qr, Inr b)] @ tw
                @ [(case rw of Inl e \<Rightarrow> RollbackTransaction qr | Inr v \<Rightarrow> CommitTransaction qr,
                    Inr c)], s3))
   \<and> (exec w (providerOrNew repo None) s0 = (Inr p, t0, s1)
      \<and> w (Provide p) s1 = (Inl err, s2)
    \<longrightarrow> exec w (persistOne repo entity) s0 = (Inl err, t0 @ [(Provide p, Inl err)], s2)
      \<and> exec w (query repo sql) s0 = (Inl err, t0 @ [(Provide p, Inl err)], s2))
   \<and> (exec w (providerOrNew repo (Some True)) s0 = (Inr p, t0, s1)
      \<and> w (Provide p) s1 = (Inl err, s2)
    \<longrightarrow> exec w (removeOne repo entity) s0 = (Inl err, t0 @ [(Provide p, Inl err)], s2)
      \<and> exec w (transaction repo work) s0 = (Inl err, t0 @ [(Provide p, Inl err)], s2))"
proof (intro conjI impI; (elim conjE)?)
  show "exec w (persistOne repo entity) s0
         = ((case rl of Inl e \<Rightarrow> Inl e | Inr u \<Rightarrow> rd),
            t0 @ [(Provide p, Inr qr),
                  (PersisterPersist (connection repo) (metadata repo) qr entity, rd),
                  (Release p qr, rl)], s4)"
    if "exec w (providerOrNew repo None) s0 = (Inr p, t0, s1)"
      "w (Provide p) s1 = (Inr qr, s2)"
      "w (PersisterPersist (connection repo) (metadata repo) qr entity) s2 = (rd, s3)"
      "w (Release p qr) s3 = (rl, s4)"
    using that by (rule exec_persistOne)
  show "exec w (removeOne repo entity) s0
         = ((case rl of Inl e \<Rightarrow> Inl e | Inr u \<Rightarrow> rd),
            t0 @ [(Provide p, Inr qr),
                  (PersisterRemove (connection repo) (metadata repo) qr entity, rd),
                  (Release p qr, rl)], s4)"
    if "exec w (providerOrNew repo (Some True)) s0 = (Inr p, t0, s1)"
      "w (Provide p) s1 = (Inr qr, s2)"
      "w (PersisterRemove (connection repo) (metadata repo) qr entity) s2 = (rd, s3)"
      "w (Release p qr) s3 = (rl, s4)"
    using that by (rule exec_removeOne)
  show "exec w (query repo sql) s0
         = ((case rl of Inl e \<Rightarrow> Inl e | Inr u \<Rightarrow> rd),
            t0 @ [(Provide p, Inr qr), (RunnerQuery qr sql, rd), (Release p qr, rl)], s4)"
    if "exec w (providerOrNew repo None) s0 = (Inr p, t0, s1)"
      "w (Provide p) s1 = (Inr qr, s2)"
      "w (RunnerQuery qr sql) s2 = (rd, s3)"
      "w (Release p qr) s3 = (rl, s4)"
    using that by (rule exec_query)
  show "exec w (transaction repo work) s0
         = ((case rl of
               Inl e \<Rightarrow> Inl e
             | Inr u \<Rightarrow>
                 (if queryRunnerProvider repo = None
                  then (case rr of Inl e \<Rightarrow> Inl e | Inr u' \<Rightarrow> rd) else rd)),
            t0 @ [(Provide p, Inr qr)] @ td @ [(Release p qr, rl)]
               @ (if queryRunnerProvider repo = None \<and> \<not> isl rl
                  then [(ReleaseReused p, rr)] else []),
            if queryRunnerProvider repo = None \<and> \<not> isl rl then s5 else s4)"
    if "exec w (providerOrNew repo (Some True)) s0 = (Inr p, t0, s1)"
      "w (Provide p) s1 = (Inr qr, s2)"
      "exec w (transactionTry qr \<lparr>connection = connection repo, metadata = metadata repo,
                    queryRunnerProvider = Some p\<rparr> work) s2 = (rd, td, s3)"
      "w (Release p qr) s3 = (rl, s4)"
      "w (ReleaseReused p) s4 = (rr, s5)"
    using that by (rule exec_transaction_released)
  show "exec w (transactionTry qr txr work) s2
         = (rw, [(BeginTransaction qr, Inr b)] @ tw
                @ [(case rw of Inl e \<Rightarrow> RollbackTransaction qr | Inr v \<Rightarrow> CommitTransaction qr,
                    Inr c)], s3)"
    if "w (BeginTransaction qr) s2 = (Inr b, sb)"
      "exec w (work txr) sb = (rw, tw, sw)"
      "w (case rw of Inl e \<Rightarrow> RollbackTransaction qr | Inr v \<Rightarrow> CommitTransaction qr) sw
          = (Inr c, s3)"
    using that by (rule exec_transactionTry_begun)
  show "exec w (persistOne repo entity) s0 = (Inl err, t0 @ [(Provide p, Inl err)], s2)"
    if "exec w (providerOrNew repo None) s0 = (Inr p, t0, s1)" "w (Provide p) s1 = (Inl err, s2)"
    using that by (rule exec_persistOne_not_leased)
  show "exec w (query repo sql) s0 = (Inl err, t0 @ [(Provide p, Inl err)], s2)"
    if "exec w (providerOrNew repo None) s0 = (Inr p, t0, s1)" "w (Provide p) s1 = (Inl err, s2)"
    using that by (rule exec_query_not_leased)
  show "exec w (removeOne repo entity) s0 = (Inl err, t0 @ [(Provide p, Inl err)], s2)"
    if "exec w (providerOrNew repo (Some True)) s0 = (Inr p, t0, s1)"
      "w (Provide p) s1 = (Inl err, s2)"
    using that by (rule exec_removeOne_not_leased)
  show "exec w (transaction repo work) s0 = (Inl err, t0 @ [(Provide p, Inl err)], s2)"
    if "exec w (providerOrNew repo (Some True)) s0 = (Inr p, t0, s1)"
      "w (Provide p) s1 = (Inl err, s2)"
    using that by (rule exec_transaction_not_leased)
qed


theorem release_exactly_once_witness:
  "exec (stubWorld demoAnswer) (persistOne userRepository JNull) 0
     = (Inl (JStr ''cannot persist''),
        [(NewQueryRunnerProvider (JRef 100) None, Inr (JRef 7)),
         (Provide (JRef 7), Inr (JRef 8)),
         (PersisterPersist \<lparr>driver = JRef 100\<rparr> userMetadata (JRef 8) JNull,
          Inl (JStr ''cannot persist'')),
         (Release (JRef 7) (JRef 8), Inr JUndefined)], 4)
   \<and> exec (stubWorld demoAnswer) (removeOne userRepository (JObj [(''id'', JNum 1)])) 0
     = (Inr (JObj [(''id'', JNum 1)]),
        [(NewQueryRunnerProvider (JRef 100) (Some True), Inr (JRef 7)),
         (Provide (JRef 7), Inr (JRef 8)),
         (PersisterRemove \<lparr>driver = JRef 100\<rparr> userMetadata (JRef 8) (JObj [(''id'', JNum 1)]),
          Inr (JObj [(''id'', JNum 1)])),
         (Release (JRef 7) (JRef 8), Inr JUndefined)], 4)
   \<and> exec (stubWorld demoAnswer) (query userRepository []) 0
     = (Inl (JStr ''empty query''),
        [(NewQueryRunnerProvider (JRef 100) None, Inr (JRef 7)),
         (Provide (JRef 7), Inr (JRef 8)),
         (RunnerQuery (JRef 8) [], Inl (JStr ''empty query'')),
         (Release (JRef 7) (JRef 8), Inr JUndefined)], 4)
   \<and> exec (stubWorld demoAnswer) (transaction userRepository throwError) 0
     = (Inl (JStr ''Error''),
        [(NewQueryRunnerProvider (JRef 100) (Some True), Inr (JRef 7)),
         (Provide (JRef 7), Inr (JRef 8)),
         (BeginTransaction (JRef 8), Inr JUndefined),
         (RollbackTransaction (JRef 8), Inr JUndefined),
         (Release (JRef 7) (JRef 8), Inr JUndefined),
         (ReleaseReused (JRef 7), Inr JUndefined)], 6)
   \<and> exec (stubWorld provideFails) (persistOne userRepository JNull) 0
     = (Inl (JStr ''pool exhausted''),
        [(NewQueryRunnerProvider (JRef 100) None, Inr (JRef 7)),
         (Provide (JRef 7), Inl (JStr ''pool exhausted''))], 2)"
proof -
  let ?w = "stubWorld demoAnswer"
  let ?new = "\<lambda>flag. [(NewQueryRunnerProvider (JRef 100) flag, Inr (JRef 7))]"
  have acq: "exec ?w (providerOrNew userRepository flag) 0 = (Inr (JRef 7), ?new flag, 1)"
    for flag
    by (simp add: exec_providerOrNew userRepository_simps stubWorld_def)
  have acq': "exec (stubWorld provideFails) (providerOrNew userRepository None) 0
      = (Inr (JRef 7), ?new None, 1)"
    by (simp add: exec_providerOrNew userRepository_simps stubWorld_def provideFails_def)
  have provide: "?w (Provide (JRef 7)) 1 = (Inr (JRef 8), 2)"
    by (simp add: stubWorld_def)
  have release: "?w (Release (JRef 7) (JRef 8)) n = (Inr JUndefined, Suc n)" for n
    by (simp add: stubWorld_def)
  have reused: "?w (ReleaseReused (JRef 7)) n = (Inr JUndefined, Suc n)" for n
    by (simp add: stubWorld_def)
  have persisted: "?w (PersisterPersist (connection userRepository) (metadata userRepository)
        (JRef 8) JNull) 2 = (Inl (JStr ''cannot persist''), 3)"
    by (simp add: stubWorld_def)
  have removed: "?w (PersisterRemove (connection userRepository) (metadata userRepository)
        (JRef 8) (JObj [(''id'', JNum 1)])) 2 = (Inr (JObj [(''id'', JNum 1)]), 3)"
    by (simp add: stubWorld_def)
  have queried: "?w (RunnerQuery (JRef 8) []) 2 = (Inl (JStr ''empty query''), 3)"
    by (simp add: stubWorld_def)
  have begun: "?w (BeginTransaction (JRef 8)) 2 = (Inr JUndefined, 3)"
    by (simp add: stubWorld_def)
  have thrown: "exec ?w (throwError txr) 3 = (Inl (JStr ''Error''), [], 3)" for txr
    by (simp add: throwError_def)
  have rolled: "?w (case (Inl (JStr ''Error'') :: completion) of
        Inl e \<Rightarrow> RollbackTransaction (JRef 8) | Inr v \<Rightarrow> CommitTransaction (JRef 8)) 3
      = (Inr JUndefined, 4)"
    by (simp add: stubWorld_def)
  have refused: "stubWorld provideFails (Provide (JRef 7)) 1 = (Inl (JStr ''pool exhausted''), 2)"
    by (simp add: stubWorld_def provideFails_def)
  note spec = release_exactly_once
  have a: "exec ?w (persistOne userRepository JNull) 0
     = (Inl (JStr ''cannot persist''),
        ?new None @ [(Provide (JRef 7), Inr (JRef 8)),
         (PersisterPersist (connection userRepository) (metadata userRepository) (JRef 8) JNull,
          Inl (JStr ''cannot persist'')),
         (Release (JRef 7) (JRef 8), Inr JUndefined)], 4)"
    using spec [where w = ?w and repo = userRepository and entity = JNull and ?s0.0 = 0
        and p = "JRef 7" and ?t0.0 = "?new None" and ?s1.0 = 1 and qr = "JRef 8" and ?s2.0 = 2
        and rd = "Inl (JStr ''cannot persist'')" and ?s3.0 = 3 and rl = "Inr JUndefined"
        and ?s4.0 = 4, THEN conjunct1]
      acq [of None] provide persisted release [of 3]
    by simp
  have b: "exec ?w (removeOne userRepository (JObj [(''id'', JNum 1)])) 0
     = (Inr (JObj [(''id'', JNum 1)]),
        ?new (Some True) @ [(Provide (JRef 7), Inr (JRef 8)),
         (PersisterRemove (connection userRepository) (metadata userRepository) (JRef 8)
            (JObj [(''id'', JNum 1)]),
          Inr (JObj [(''id'', JNum 1)])),
         (Release (JRef 7) (JRef 8), Inr JUndefined)], 4)"
    using spec [where w = ?w and repo = userRepository and entity = "JObj [(''id'', JNum 1)]"
        and ?s0.0 = 0 and p = "JRef 7" and ?t0.0 = "?new (Some True)" and ?s1.0 = 1
        and qr = "JRef 8" and ?s2.0 = 2 and rd = "Inr (JObj [(''id'', JNum 1)])" and ?s3.0 = 3
        and rl = "Inr JUndefined" and ?s4.0 = 4, THEN conjunct2, THEN conjunct1]
      acq [of "Some True"] provide removed release [of 3]
    by simp
  have c: "exec ?w (query userRepository []) 0
     = (Inl (JStr ''empty query''),
        ?new None @ [(Provide (JRef 7), Inr (JRef 8)),
         (RunnerQuery (JRef 8) [], Inl (JStr ''empty query'')),
         (Release (JRef 7) (JRef 8), Inr JUndefined)], 4)"
    using spec [where w = ?w and repo = userRepository and sql = "[]" and ?s0.0 = 0
        and p = "JRef 7" and ?t0.0 = "?new None" and ?s1.0 = 1 and qr = "JRef 8" and ?s2.0 = 2
        and rd = "Inl (JStr ''empty query'')" and ?s3.0 = 3 and rl = "Inr JUndefined"
        and ?s4.0 = 4, THEN conjunct2, THEN conjunct2, THEN conjunct1]
      acq [of None] provide queried release [of 3]
    by simp
  let ?txr = "\<lparr>connection = connection userRepository, metadata = metadata userRepository,
               queryRunnerProvider = Some (JRef 7)\<rparr>"
  have d1: "exec ?w (transactionTry (JRef 8) ?txr throwError) 2
     = (Inl (JStr ''Error''),
        [(BeginTransaction (JRef 8), Inr JUndefined)] @ []
          @ [(RollbackTransaction (JRef 8), Inr JUndefined)], 4)"
    using spec [where w = ?w and work = throwError and txr = ?txr and qr = "JRef 8"
        and ?s2.0 = 2 and b = JUndefined and sb = 3 and rw = "Inl (JStr ''Error'')"
        and tw = "[]" and sw = 3 and c = JUndefined and ?s3.0 = 4,
        THEN conjunct2, THEN conjunct2, THEN conjunct2, THEN conjunct2, THEN conjunct1]
      begun thrown [of ?txr] rolled
    by simp
  have d: "exec ?w (transaction userRepository throwError) 0
     = (Inl (JStr ''Error''),
        ?new (Some True) @ [(Provide (JRef 7), Inr (JRef 8))]
          @ ([(BeginTransaction (JRef 8), Inr JUndefined)] @ []
             @ [(RollbackTransaction (JRef 8), Inr JUndefined)])
          @ [(Release (JRef 7) (JRef 8), Inr JUndefined)]
          @ [(ReleaseReused (JRef 7), Inr JUndefined)], 6)"
    using spec [where w = ?w and repo = userRepository and work = throwError and ?s0.0 = 0
        and p = "JRef 7" and ?t0.0 = "?new (Some True)" and ?s1.0 = 1 and qr = "JRef 8"
        and ?s2.0 = 2 and rd = "Inl (JStr ''Error'')"
        and td = "[(BeginTransaction (JRef 8), Inr JUndefined)] @ []
             @ [(RollbackTransaction (JRef 8), Inr JUndefined)]"
        and ?s3.0 = 4 and rl = "Inr JUndefined" and ?s4.0 = 5 and rr = "Inr JUndefined" and ?s5.0 = 6,
        THEN conjunct2, THEN conjunct2, THEN conjunct2, THEN conjunct1]
      acq [of "Some True"] provide d1 release [of 4] reused [of 5]
    by (simp add: userRepository_simps)
  have e: "exec (stubWorld provideFails) (persistOne userRepository JNull) 0
     = (Inl (JStr ''pool exhausted''),
        ?new None @ [(Provide (JRef 7), Inl (JStr ''pool exhausted''))], 2)"
    using spec [where w = "stubWorld provideFails" and repo = userRepository
        and entity = JNull and ?s0.0 = 0 and p = "JRef 7" and ?t0.0 = "?new None" and ?s1.0 = 1
        and err = "JStr ''pool exhausted''" and ?s2.0 = 2,
        THEN conjunct2, THEN conjunct2, THEN conjunct2, THEN conjunct2, THEN conjunct2,
        THEN conjunct1]
      acq' refused
    by simp
  from a b c d e show ?thesis by (simp add: userRepository_simps)
qed

text \<open>
  When the release of \<open>transaction\<close> throws, its error is the completion of
  \<open>transaction\<close>, whatever the try/catch block completed with, and \<open>releaseReused\<close> is not
  called, also for a provider that the repository made itself.
\<close>

theorem transaction_release_failure:
  assumes "exec w (providerOrNew repo (Some True)) s0 = (Inr p, t0, s1)"
    and "w (Provide p) s1 = (Inr qr, s2)"
    and "exec w (transactionTry qr \<lparr>connection = connection repo, metadata = metadata repo,
                    queryRunnerProvider = Some p\<rparr> work) s2 = (rd, td, s3)"
    and "w (Release p qr) s3 = (Inl e, s4)"
  shows "exec w (transaction repo work) s0
         = (Inl e, t0 @ [(Provide p, Inr qr)] @ td @ [(Release p qr, Inl e)], s4)"
proof -
  from assms(4) have "exec w (transactionFinally repo p qr) s3
      = (Inl e, [(Release p qr, Inl e)], s4)"
    by (simp add: exec_transactionFinally)
  from exec_transaction_blocks [OF assms(1,2,3) this] show ?thesis by simp
qed

theorem transaction_release_failure_witness:
  "exec (stubWorld releaseFails) (providerOrNew userRepository (Some True)) 0
     = (Inr (JRef 7), [(NewQueryRunnerProvider (JRef 100) (Some True), Inr (JRef 7))], 1)
   \<and> stubWorld releaseFails (Provide (JRef 7)) 1 = (Inr (JRef 8), 2)
   \<and> exec (stubWorld releaseFails)
        (transactionTry (JRef 8)
           \<lparr>connection = \<lparr>driver = JRef 100\<rparr>, metadata = userMetadata,
            queryRunnerProvider = Some (JRef 7)\<rparr>
           (\<lambda>r. Settled (Inr (JNum 42)))) 2
     = (Inr (JNum 42),
        [(BeginTransaction (JRef 8), Inr JUndefined),
         (CommitTransaction (JRef 8), Inr JUndefined)], 4)
   \<and> stubWorld releaseFails (Release (JRef 7) (JRef 8)) 4 = (Inl (JStr ''release failed''), 5)
   \<and> exec (stubWorld releaseFails)
        (transaction userRepository (\<lambda>r. Settled (Inr (JNum 42)))) 0
     = (Inl (JStr ''release failed''),
        [(NewQueryRunnerProvider (JRef 100) (Some True), Inr (JRef 7)),
         (Provide (JRef 7), Inr (JRef 8)),
         (BeginTransaction (JRef 8), Inr JUndefined),
         (CommitTransaction (JRef 8), Inr JUndefined),
         (Release (JRef 7) (JRef 8), Inl (JStr ''release failed''))], 5)"
proof -
  have h1: "exec (stubWorld releaseFails) (providerOrNew userRepository (Some True)) 0
     = (Inr (JRef 7), [(NewQueryRunnerProvider (JRef 100) (Some True), Inr (JRef 7))], 1)"
    by (simp add: exec_providerOrNew userRepository_simps stubWorld_def releaseFails_def)
  have h2: "stubWorld releaseFails (Provide (JRef 7)) 1 = (Inr (JRef 8), 2)"
    by (simp add: stubWorld_def releaseFails_def)
  have h3: "exec (stubWorld releaseFails)
        (transactionTry (JRef 8)
           \<lparr>connection = connection userRepository, metadata = metadata userRepository,
            queryRunnerProvider = Some (JRef 7)\<rparr>
           (\<lambda>r. Settled (Inr (JNum 42)))) 2
     = (Inr (JNum 42),
        [(BeginTransaction (JRef 8), Inr JUndefined),
         (CommitTransaction (JRef 8), Inr JUndefined)], 4)"
    by (simp add: transactionTry_def exec_tryCatch exec_bind exec_call stubWorld_def
          releaseFails_def)
  have h4: "stubWorld releaseFails (Release (JRef 7) (JRef 8)) 4
      = (Inl (JStr ''release failed''), 5)"
    by (simp add: stubWorld_def releaseFails_def)
  from transaction_release_failure
         [where work = "\<lambda>r. Settled (Inr (JNum 42))", OF h1 h2 h3 h4] h1 h2 h3 h4
  show ?thesis by (simp add: userRepository_simps)
qed

section \<open>Properties of the fan-out over an array\<close>

lemma residual_snoc:
  "residual a evs = Some (Call c k) \<Longrightarrow> residual a (evs @ [(c, r)]) = Some (k r)"
proof (induction evs arbitrary: a)
  case Nil
  then show ?case by simp
next
  case (Cons ev evs)
  then show ?case by (cases a; cases ev) (auto split: if_splits)
qed

lemma lastPosition_snoc:
  "lastPosition p (lg @ [x]) = (if fst x = p then Suc (length lg) else lastPosition p lg)"
  by (simp add: lastPosition_def)

lemma eventsOf_snoc:
  "eventsOf p (lg @ [x]) = (if fst x = p then eventsOf p lg @ [snd x] else eventsOf p lg)"
  by (simp add: eventsOf_def)

lemma stepAt_leaf: "stepAt w t (j # q) (Leaf a u) s = (Leaf a u, [], s)"
  by simp

lemma stepAt_flat:
  assumes "\<forall>l \<in> set leafs. \<exists>a t. l = Leaf a t"
  shows "stepAt w t p (Node leafs) s =
     (case p of
        [i] \<Rightarrow>
          (if i < length leafs then
             (case leafs ! i of
                Leaf (Call c k) u \<Rightarrow>
                  (case w c s of (r, s') \<Rightarrow> (Node (leafs[i := Leaf (k r) t]), [(c, r)], s'))
              | _ \<Rightarrow> (Node leafs, [], s))
           else (Node leafs, [], s))
      | _ \<Rightarrow> (Node leafs, [], s))"
proof (cases p)
  case Nil
  then show ?thesis by simp
next
  case (Cons i q)
  show ?thesis
  proof (cases "i < length leafs")
    case False
    with Cons show ?thesis by (cases q) simp_all
  next
    case True
    with assms obtain a u where l: "leafs ! i = Leaf a u" by (metis nth_mem)
    show ?thesis
    proof (cases q)
      case Nil
      with Cons True l show ?thesis
        by (cases a) (auto split: prod.splits simp: list_update_same_conv)
    next
      case (Cons j q')
      with \<open>p = i # q\<close> True l show ?thesis by (simp add: list_update_same_conv)
    qed
  qed
qed

lemma fanInv_init:
  "fanInv as [] \<lparr>tree = Node (map (\<lambda>a. Leaf a 0) as), log = [], world_state = s\<rparr>"
  by (simp add: fanInv_def lastPosition_def eventsOf_def)

lemma fanInv_idle:
  assumes "fanInv as sched cfg"
    and "\<And>i a t. p = [i] \<Longrightarrow> i < length as \<Longrightarrow> tree cfg = Node leafs
            \<Longrightarrow> leafs ! i = Leaf a t \<Longrightarrow> \<exists>r. a = Settled r"
    and "tree cfg = Node leafs"
  shows "fanInv as (sched @ [p]) cfg"
  using assms unfolding fanInv_def by (auto; metis)

lemma fanInv_step:
  assumes inv: "fanInv as sched cfg"
  shows "fanInv as (sched @ [p]) (step w p cfg)"
proof -
  from inv obtain leafs where
    tr: "tree cfg = Node leafs" and len: "length leafs = length as" and
    each: "\<forall>i<length as. \<exists>a. leafs ! i = Leaf a (lastPosition [i] (log cfg))
            \<and> residual (as ! i) (eventsOf [i] (log cfg)) = Some a
            \<and> ((\<exists>r. a = Settled r) \<or> length (eventsOf [i] (log cfg)) = count_list sched [i])"
    unfolding fanInv_def by blast
  have flat: "\<forall>l \<in> set leafs. \<exists>a t. l = Leaf a t"
    using each len by (metis in_set_conv_nth)
  note st = stepAt_flat [OF flat]
  consider (act) i c k u where "p = [i]" "i < length leafs" "leafs ! i = Leaf (Call c k) u"
    | (idle) "step w p cfg = cfg"
        "\<And>i a t. p = [i] \<Longrightarrow> i < length as \<Longrightarrow> leafs ! i = Leaf a t \<Longrightarrow> \<exists>r. a = Settled r"
  proof (cases p)
    case Nil
    with tr have "step w p cfg = cfg" by (simp add: step_def)
    with Nil show ?thesis using idle by simp
  next
    case (Cons i q)
    show ?thesis
    proof (cases q)
      case (Cons j q')
      with \<open>p = i # q\<close> tr have "step w p cfg = cfg" by (simp add: step_def st)
      with Cons \<open>p = i # q\<close> show ?thesis using idle by simp
    next
      case Nil
      with \<open>p = i # q\<close> have p: "p = [i]" by simp
      show ?thesis
      proof (cases "i < length leafs")
        case False
        with p tr len have "step w p cfg = cfg" by (simp add: step_def st)
        with p False len show ?thesis using idle by simp
      next
        case True
        with flat obtain a u where l: "leafs ! i = Leaf a u" by (metis nth_mem)
        show ?thesis
        proof (cases a)
          case (Settled r)
          with p tr True l have "step w p cfg = cfg" by (simp add: step_def st)
          moreover have "\<exists>r. a' = Settled r"
            if "p = [i']" "i' < length as" "leafs ! i' = Leaf a' t'" for i' a' t'
            using that p l Settled by simp
          ultimately show ?thesis using idle by blast
        next
          case (Call c k)
          with p True l show ?thesis using act by simp
        qed
      qed
    qed
  qed
  then show ?thesis
  proof cases
    case idle
    from fanInv_idle [OF inv _ tr] idle show ?thesis by simp
  next
    case act
    obtain r s' where wr: "w c (world_state cfg) = (r, s')"
      by (cases "w c (world_state cfg)") auto
    let ?t = "Suc (length (log cfg))"
    have cfg': "step w p cfg =
        \<lparr>tree = Node (leafs[i := Leaf (k r) ?t]), log = log cfg @ [([i], (c, r))],
         world_state = s'\<rparr>"
      using act tr wr by (simp add: step_def st)
    from each act len have resi: "residual (as ! i) (eventsOf [i] (log cfg)) = Some (Call c k)"
      and cnt: "length (eventsOf [i] (log cfg)) = count_list sched [i]"
      by auto
    have A: "\<forall>j<length as. \<exists>a.
          leafs[i := Leaf (k r) ?t] ! j = Leaf a (lastPosition [j] (log cfg @ [([i], (c, r))]))
        \<and> residual (as ! j) (eventsOf [j] (log cfg @ [([i], (c, r))])) = Some a
        \<and> ((\<exists>r. a = Settled r) \<or>
            length (eventsOf [j] (log cfg @ [([i], (c, r))])) = count_list (sched @ [p]) [j])"
    proof (intro allI impI)
      fix j assume j: "j < length as"
      show "\<exists>a.
          leafs[i := Leaf (k r) ?t] ! j = Leaf a (lastPosition [j] (log cfg @ [([i], (c, r))]))
        \<and> residual (as ! j) (eventsOf [j] (log cfg @ [([i], (c, r))])) = Some a
        \<and> ((\<exists>r. a = Settled r) \<or>
            length (eventsOf [j] (log cfg @ [([i], (c, r))])) = count_list (sched @ [p]) [j])"
      proof (cases "j = i")
        case True
        with act len resi cnt show ?thesis
          by (simp add: lastPosition_snoc eventsOf_snoc residual_snoc)
      next
        case False
        with each j act show ?thesis
          by (simp add: lastPosition_snoc eventsOf_snoc)
      qed
    qed
    show ?thesis
      unfolding fanInv_def cfg'
      by (rule exI [where x = "leafs[i := Leaf (k r) ?t]"]) (use A len in simp)
  qed
qed

lemma fanInv_run:
  "fanInv as sched
     (fold (step w) sched \<lparr>tree = Node (map (\<lambda>a. Leaf a 0) as), log = [], world_state = s\<rparr>)"
  by (induction sched rule: rev_induct) (simp_all add: fanInv_init fanInv_step)

lemma leased_tree:
  "leased p d =
     Call (Provide p) (\<lambda>r. case r of
        Inl e \<Rightarrow> Settled (Inl e)
      | Inr qr \<Rightarrow> Call (d qr) (\<lambda>rd. Call (Release p qr) (\<lambda>rl. case rl of
          Inl x \<Rightarrow> Settled (Inl x) | Inr u \<Rightarrow> Settled rd)))"
  by (simp add: leased_def call_def)

lemma residual_leased_settled:
  "residual (leased p d) evs = Some (Settled r) \<Longrightarrow> leasedCycle p d evs r"
  unfolding leased_tree
  by (cases "(p, d, evs, r)" rule: leasedCycle.cases)
     (auto split: if_splits sum.splits)

lemma residual_leased_pending:
  "residual (leased p d) evs = Some (Call c k) \<Longrightarrow> length evs < 3"
  unfolding leased_tree
  by (cases "(p, d, evs, Inr JNull :: completion)" rule: leasedCycle.cases)
     (auto split: if_splits sum.splits)

lemma residual_Settled: "residual (Settled x) evs = Some a \<longleftrightarrow> evs = [] \<and> a = Settled x"
  by (cases evs) auto

lemma lease_tree:
  "bind (providerOrNew repo flag) (\<lambda>p. leased p d) =
     (case queryRunnerProvider repo of
        Some p \<Rightarrow> leased p d
      | None \<Rightarrow>
          Call (NewQueryRunnerProvider (driver (connection repo)) flag)
            (\<lambda>r. case r of Inl e \<Rightarrow> Settled (Inl e) | Inr p \<Rightarrow> leased p d))"
  by (simp add: providerOrNew_def call_def split: option.splits)

lemma residual_lease_settled:
  assumes "residual (bind (providerOrNew repo flag) (\<lambda>p. leased p d)) evs = Some (Settled r)"
  shows "leaseCycle repo flag d evs r"
proof (cases "queryRunnerProvider repo")
  case (Some p)
  with assms show ?thesis
    by (simp add: lease_tree leaseCycle_def residual_leased_settled)
next
  case None
  show ?thesis
  proof (cases evs)
    case Nil
    with assms None show ?thesis by (simp add: lease_tree)
  next
    case (Cons ev rest)
    obtain c0 r0 where ev: "ev = (c0, r0)" by (cases ev)
    from assms None Cons ev show ?thesis
      by (cases r0)
         (auto simp: lease_tree leaseCycle_def residual_Settled residual_leased_settled
               split: if_splits)
  qed
qed

lemma residual_lease_pending:
  assumes "residual (bind (providerOrNew repo flag) (\<lambda>p. leased p d)) evs = Some (Call c k)"
  shows "length evs < 4"
proof (cases "queryRunnerProvider repo")
  case (Some p)
  with assms have "length evs < 3" by (simp add: lease_tree residual_leased_pending)
  then show ?thesis by simp
next
  case None
  show ?thesis
  proof (cases evs)
    case Nil
    then show ?thesis by simp
  next
    case (Cons ev rest)
    obtain c0 r0 where ev: "ev = (c0, r0)" by (cases ev)
    from assms None Cons ev have "length rest < 3"
      by (cases r0)
         (auto simp: lease_tree residual_Settled dest: residual_leased_pending split: if_splits)
    with Cons show ?thesis by simp
  qed
qed

lemma persistOne_lease:
  "persistOne repo entity =
     bind (providerOrNew repo None)
       (\<lambda>p. leased p (\<lambda>qr. PersisterPersist (connection repo) (metadata repo) qr entity))"
  by (simp add: persistOne_def leased_def)

lemma removeOne_lease:
  "removeOne repo entity =
     bind (providerOrNew repo (Some True))
       (\<lambda>p. leased p (\<lambda>qr. PersisterRemove (connection repo) (metadata repo) qr entity))"
  by (simp add: removeOne_def leased_def)

lemma persist_not_array: "(\<forall>xs. e \<noteq> JArr xs) \<Longrightarrow> persist repo e = Single (persistOne repo e)"
  by (cases e) simp_all

lemma remove_not_array: "(\<forall>xs. e \<noteq> JArr xs) \<Longrightarrow> remove repo e = Single (removeOne repo e)"
  by (cases e) simp_all

lemma start_persist_array:
  "\<forall>e \<in> set es. \<forall>xs. e \<noteq> JArr xs \<Longrightarrow>
   start (persist repo (JArr es)) = Node (map (\<lambda>a. Leaf a 0) (map (persistOne repo) es))"
  by (simp add: persist_not_array)

lemma start_remove_array:
  "\<forall>e \<in> set es. \<forall>xs. e \<noteq> JArr xs \<Longrightarrow>
   start (remove repo (JArr es)) = Node (map (\<lambda>a. Leaf a 0) (map (removeOne repo) es))"
  by (simp add: remove_not_array)

lemma earliest_None: "earliest sts = None \<longleftrightarrow> (\<forall>t e. Rejected t e \<notin> set sts)"
  by (induction sts rule: earliest.induct) (auto split: option.splits)

lemma earliest_Some:
  "earliest sts = Some (t, e) \<Longrightarrow>
   Rejected t e \<in> set sts \<and> (\<forall>t' e'. Rejected t' e' \<in> set sts \<longrightarrow> t \<le> t')"
proof (induction sts arbitrary: t e rule: earliest.induct)
  case 1
  then show ?case by simp
next
  case (2 u x sts)
  show ?case
  proof (cases "earliest sts")
    case None
    with "2.prems" have "t = u" "e = x" by simp_all
    with None show ?thesis by (auto simp: earliest_None)
  next
    case (Some b)
    obtain t' e' where b: "b = (t', e')" by (cases b)
    from "2.IH" [of t' e'] Some b
    have ih: "Rejected t' e' \<in> set sts" "\<forall>t'' e''. Rejected t'' e'' \<in> set sts \<longrightarrow> t' \<le> t''"
      by auto
    from "2.prems" Some b ih show ?thesis
      by (auto split: if_splits)
  qed
qed auto

lemma lastPosition_zero: "lastPosition p lg = 0 \<longleftrightarrow> eventsOf p lg = []"
  by (induction lg rule: rev_induct) (simp_all add: lastPosition_snoc eventsOf_snoc, simp_all add: lastPosition_def eventsOf_def)

lemma lastPosition_at:
  "0 < lastPosition p lg \<Longrightarrow>
   lastPosition p lg \<le> length lg \<and> fst (lg ! (lastPosition p lg - 1)) = p"
proof (induction lg rule: rev_induct)
  case Nil
  then show ?case by (simp add: lastPosition_def)
next
  case (snoc x lg)
  show ?case
  proof (cases "fst x = p")
    case True
    then show ?thesis by (simp add: lastPosition_snoc)
  next
    case False
    with snoc.prems have pos: "0 < lastPosition p lg" by (simp add: lastPosition_snoc)
    from snoc.IH [OF pos] False pos show ?thesis
      by (auto simp: lastPosition_snoc nth_append)
  qed
qed

lemma fan_out_lease:
  assumes fair: "\<forall>i<length es. 4 \<le> count_list sched [i]"
    and cfg: "cfg = fold (step w) sched
        \<lparr>tree = Node (map (\<lambda>a. Leaf a 0)
                  (map (\<lambda>e. bind (providerOrNew repo flag) (\<lambda>p. leased p (d e))) es)),
         log = [], world_state = s\<rparr>"
  shows "\<exists>rs. length rs = length es
     \<and> tree cfg = Node (map (\<lambda>i. Leaf (Settled (rs ! i)) (lastPosition [i] (log cfg)))
                        [0..<length es])
     \<and> (\<forall>i<length es. leaseCycle repo flag (d (es ! i)) (eventsOf [i] (log cfg)) (rs ! i))"
proof -
  let ?as = "map (\<lambda>e. bind (providerOrNew repo flag) (\<lambda>p. leased p (d e))) es"
  have "fanInv ?as sched cfg" unfolding cfg by (rule fanInv_run)
  then obtain leafs where
    tr: "tree cfg = Node leafs" and len: "length leafs = length es" and
    each: "\<forall>i<length es. \<exists>a. leafs ! i = Leaf a (lastPosition [i] (log cfg))
            \<and> residual (?as ! i) (eventsOf [i] (log cfg)) = Some a
            \<and> ((\<exists>r. a = Settled r) \<or> length (eventsOf [i] (log cfg)) = count_list sched [i])"
    unfolding fanInv_def by auto
  have settled: "\<exists>r. leafs ! i = Leaf (Settled r) (lastPosition [i] (log cfg))
        \<and> leaseCycle repo flag (d (es ! i)) (eventsOf [i] (log cfg)) r"
    if i: "i < length es" for i
  proof -
    from each i obtain a where
      a: "leafs ! i = Leaf a (lastPosition [i] (log cfg))"
      and res: "residual (bind (providerOrNew repo flag) (\<lambda>p. leased p (d (es ! i))))
                  (eventsOf [i] (log cfg)) = Some a"
      and cnt: "(\<exists>r. a = Settled r) \<or> length (eventsOf [i] (log cfg)) = count_list sched [i]"
      by auto
    show ?thesis
    proof (cases a)
      case (Settled r)
      with a res show ?thesis by (auto intro: residual_lease_settled)
    next
      case (Call c k)
      with res have "length (eventsOf [i] (log cfg)) < 4" by (auto dest: residual_lease_pending)
      moreover from cnt Call have "length (eventsOf [i] (log cfg)) = count_list sched [i]" by simp
      moreover from fair i have "4 \<le> count_list sched [i]" by simp
      ultimately show ?thesis by simp
    qed
  qed
  let ?rs = "map leafCompletion leafs"
  have "leafs = map (\<lambda>i. Leaf (Settled (?rs ! i)) (lastPosition [i] (log cfg))) [0..<length es]"
  proof (rule nth_equalityI)
    show "length leafs
        = length (map (\<lambda>i. Leaf (Settled (?rs ! i)) (lastPosition [i] (log cfg))) [0..<length es])"
      using len by simp
  next
    fix i assume "i < length leafs"
    with len have i: "i < length es" by simp
    from settled [OF i] obtain r where "leafs ! i = Leaf (Settled r) (lastPosition [i] (log cfg))"
      by blast
    with i len show "leafs ! i
        = map (\<lambda>i. Leaf (Settled (?rs ! i)) (lastPosition [i] (log cfg))) [0..<length es] ! i"
      by simp
  qed
  moreover have "\<forall>i<length es.
      leaseCycle repo flag (d (es ! i)) (eventsOf [i] (log cfg)) (?rs ! i)"
  proof (intro allI impI)
    fix i assume i: "i < length es"
    from settled [OF i] obtain r where
      "leafs ! i = Leaf (Settled r) (lastPosition [i] (log cfg))"
      "leaseCycle repo flag (d (es ! i)) (eventsOf [i] (log cfg)) r" by blast
    with i len show "leaseCycle repo flag (d (es ! i)) (eventsOf [i] (log cfg)) (?rs ! i)"
      by simp
  qed
  ultimately show ?thesis using tr len
    by (intro exI [where x = ?rs]) simp
qed

lemma outcome_settled_node:
  assumes "length rs = n"
  shows "((\<forall>i<n. \<not> isl (rs ! i)) \<longrightarrow>
            outcomeOf (Node (map (\<lambda>i. Leaf (Settled (rs ! i)) (ts i)) [0..<n]))
              = Fulfilled (JArr (map projr rs)))
       \<and> ((\<exists>i<n. isl (rs ! i)) \<longrightarrow>
            (\<exists>i<n. \<exists>e. rs ! i = Inl e
               \<and> outcomeOf (Node (map (\<lambda>i. Leaf (Settled (rs ! i)) (ts i)) [0..<n]))
                   = Rejected (ts i) e
               \<and> (\<forall>j<n. isl (rs ! j) \<longrightarrow> ts i \<le> ts j)))"
proof -
  let ?st = "\<lambda>i. case rs ! i of Inl e \<Rightarrow> Rejected (ts i) e | Inr v \<Rightarrow> Fulfilled v"
  let ?sts = "map ?st [0..<n]"
  have sts: "map outcomeOf (map (\<lambda>i. Leaf (Settled (rs ! i)) (ts i)) [0..<n]) = ?sts"
    by (auto split: sum.splits)
  have mem: "Rejected t e \<in> set ?sts \<longleftrightarrow> (\<exists>i<n. rs ! i = Inl e \<and> t = ts i)" for t e
  proof
    assume "Rejected t e \<in> set ?sts"
    then show "\<exists>i<n. rs ! i = Inl e \<and> t = ts i" by (auto split: sum.splits)
  next
    assume "\<exists>i<n. rs ! i = Inl e \<and> t = ts i"
    then obtain i where i: "i < n" "rs ! i = Inl e" "t = ts i" by blast
    then have eq: "?st i = Rejected t e" by simp
    from i have "i \<in> set [0..<n]" by simp
    then have "?st i \<in> ?st ` set [0..<n]" by (rule imageI)
    then have "?st i \<in> set ?sts" by (simp only: set_map)
    with eq show "Rejected t e \<in> set ?sts" by (simp only:)
  qed
  show ?thesis
  proof (intro conjI impI)
    assume ok: "\<forall>i<n. \<not> isl (rs ! i)"
    then have none: "earliest ?sts = None"
      unfolding earliest_None mem by auto
    from ok have all: "list_all (\<lambda>st. fulfilledValue st \<noteq> None) ?sts"
      by (auto simp: list_all_iff split: sum.splits)
    from ok assms have vals: "map (\<lambda>st. the (fulfilledValue st)) ?sts = map projr rs"
      by (intro nth_equalityI) (auto split: sum.splits)
    show "outcomeOf (Node (map (\<lambda>i. Leaf (Settled (rs ! i)) (ts i)) [0..<n]))
              = Fulfilled (JArr (map projr rs))"
      unfolding outcomeOf.simps sts Let_def none using all vals by simp
  next
    assume "\<exists>i<n. isl (rs ! i)"
    then obtain i0 e0 where "i0 < n" "rs ! i0 = Inl e0" by (auto simp: isl_def)
    then have "Rejected (ts i0) e0 \<in> set ?sts" unfolding mem by blast
    then obtain t e where some: "earliest ?sts = Some (t, e)"
      using earliest_None [of ?sts] by (cases "earliest ?sts") auto
    from earliest_Some [OF some]
    have inset: "Rejected t e \<in> set ?sts"
      and least: "\<forall>t' e'. Rejected t' e' \<in> set ?sts \<longrightarrow> t \<le> t'" by blast+
    from inset obtain i where i: "i < n" "rs ! i = Inl e" "t = ts i" unfolding mem by blast
    have "\<forall>j<n. isl (rs ! j) \<longrightarrow> ts i \<le> ts j"
    proof (intro allI impI)
      fix j assume "j < n" "isl (rs ! j)"
      then obtain e' where "rs ! j = Inl e'" by (auto simp: isl_def)
      with \<open>j < n\<close> have "Rejected (ts j) e' \<in> set ?sts" unfolding mem by blast
      with least i show "ts i \<le> ts j" by blast
    qed
    moreover have "outcomeOf (Node (map (\<lambda>i. Leaf (Settled (rs ! i)) (ts i)) [0..<n]))
        = Rejected (ts i) e"
      unfolding outcomeOf.simps sts Let_def some using i by simp
    ultimately show "\<exists>i<n. \<exists>e. rs ! i = Inl e
               \<and> outcomeOf (Node (map (\<lambda>i. Leaf (Settled (rs ! i)) (ts i)) [0..<n]))
                   = Rejected (ts i) e
               \<and> (\<forall>j<n. isl (rs ! j) \<longrightarrow> ts i \<le> ts j)"
      using i by blast
  qed
qed

lemma leaseCycle_nonempty: "leaseCycle repo flag d evs r \<Longrightarrow> evs \<noteq> []"
  by (auto simp: leaseCycle_def split: option.splits)

lemma earliest_unsettled:
  "j < length xs \<Longrightarrow> xs ! j = Pending \<Longrightarrow> (\<forall>t e. st \<noteq> Rejected t e) \<Longrightarrow>
   earliest (xs[j := st]) = earliest xs"
proof (induction xs arbitrary: j)
  case Nil
  then show ?case by simp
next
  case (Cons x xs)
  show ?case
  proof (cases j)
    case 0
    with Cons.prems show ?thesis by (cases st) simp_all
  next
    case (Suc j')
    with Cons have "earliest (xs[j' := st]) = earliest xs" by simp
    with Suc show ?thesis by (cases x) simp_all
  qed
qed

lemma earliest_late:
  "j < length xs \<Longrightarrow> xs ! j = Pending \<Longrightarrow> (\<forall>t e. Rejected t e \<in> set xs \<longrightarrow> t < t') \<Longrightarrow>
   earliest (xs[j := Rejected t' e']) =
     (case earliest xs of None \<Rightarrow> Some (t', e') | Some b \<Rightarrow> Some b)"
proof (induction xs arbitrary: j)
  case Nil
  then show ?case by simp
next
  case (Cons x xs)
  show ?case
  proof (cases j)
    case 0
    show ?thesis
    proof (cases "earliest xs")
      case None
      with 0 Cons.prems show ?thesis by simp
    next
      case (Some b)
      obtain t e where b: "b = (t, e)" by (cases b)
      with Some have "Rejected t e \<in> set xs" by (auto dest: earliest_Some)
      with Cons.prems have "t < t'" by simp
      with 0 Cons.prems Some b show ?thesis by simp
    qed
  next
    case (Suc j')
    from Cons.prems Suc have "j' < length xs" "xs ! j' = Pending"
      "\<forall>t e. Rejected t e \<in> set xs \<longrightarrow> t < t'" by auto
    then have ih: "earliest (xs[j' := Rejected t' e']) =
        (case earliest xs of None \<Rightarrow> Some (t', e') | Some b \<Rightarrow> Some b)"
      by (rule Cons.IH)
    show ?thesis
    proof (cases x)
      case (Rejected tx ex)
      with Cons.prems have "tx < t'" by simp
      with Suc Rejected ih show ?thesis
        by (cases "earliest xs") (auto split: prod.splits)
    qed (use Suc ih in simp_all)
  qed
qed


lemma lastPosition_le: "lastPosition p lg \<le> length lg"
  using lastPosition_at [of p lg] by (cases "lastPosition p lg") auto

lemma step_flat_cases:
  assumes tr: "tree cfg = Node leafs" and flat: "\<forall>l \<in> set leafs. \<exists>a t. l = Leaf a t"
  obtains (idle) "step w p cfg = cfg"
  | (act) i c k u r s' where "p = [i]" "i < length leafs" "leafs ! i = Leaf (Call c k) u"
      "step w p cfg =
         \<lparr>tree = Node (leafs[i := Leaf (k r) (Suc (length (log cfg)))]),
          log = log cfg @ [([i], (c, r))], world_state = s'\<rparr>"
proof -
  note st = stepAt_flat [OF flat]
  show thesis
  proof (cases p)
    case Nil
    with tr have "step w p cfg = cfg" by (simp add: step_def)
    then show ?thesis by (rule idle)
  next
    case (Cons i q)
    show ?thesis
    proof (cases q)
      case (Cons j q')
      with \<open>p = i # q\<close> tr have "step w p cfg = cfg" by (simp add: step_def st)
      then show ?thesis by (rule idle)
    next
      case Nil
      with \<open>p = i # q\<close> have p: "p = [i]" by simp
      show ?thesis
      proof (cases "i < length leafs")
        case False
        with p tr have "step w p cfg = cfg" by (simp add: step_def st)
        then show ?thesis by (rule idle)
      next
        case True
        with flat obtain a u where l: "leafs ! i = Leaf a u" by (metis nth_mem)
        show ?thesis
        proof (cases a)
          case (Settled r)
          with p tr True l have "step w p cfg = cfg" by (simp add: step_def st)
          then show ?thesis by (rule idle)
        next
          case (Call c k)
          obtain r s' where "w c (world_state cfg) = (r, s')"
            by (cases "w c (world_state cfg)") auto
          with p tr True l Call have "step w p cfg =
             \<lparr>tree = Node (leafs[i := Leaf (k r) (Suc (length (log cfg)))]),
              log = log cfg @ [([i], (c, r))], world_state = s'\<rparr>"
            by (simp add: step_def st)
          with p True l Call show ?thesis by (intro act) auto
        qed
      qed
    qed
  qed
qed

lemma outcomeOf_Node_Rejected:
  "outcomeOf (Node cs) = Rejected t e \<longleftrightarrow> earliest (map outcomeOf cs) = Some (t, e)"
  by (auto simp: Let_def split: option.splits)

lemma rejected_step:
  assumes inv: "fanInv as sched cfg" and rej: "outcomeOf (tree cfg) = Rejected t e"
  shows "outcomeOf (tree (step w p cfg)) = Rejected t e"
proof -
  from inv obtain leafs where
    tr: "tree cfg = Node leafs" and len: "length leafs = length as" and
    each: "\<forall>i<length as. \<exists>a. leafs ! i = Leaf a (lastPosition [i] (log cfg))"
    unfolding fanInv_def by blast
  have flat: "\<forall>l \<in> set leafs. \<exists>a t. l = Leaf a t"
    using each len by (metis in_set_conv_nth)
  from tr flat show ?thesis
  proof (cases rule: step_flat_cases [where w = w and p = p])
    case idle
    with rej show ?thesis by simp
  next
    case (act i c k u r s')
    let ?T = "Suc (length (log cfg))"
    let ?sts = "map outcomeOf leafs"
    from rej tr have early: "earliest ?sts = Some (t, e)"
      by (simp only: outcomeOf_Node_Rejected)
    from act have pend: "?sts ! i = Pending" and i: "i < length ?sts" by simp_all
    have before: "\<forall>t'' e''. Rejected t'' e'' \<in> set ?sts \<longrightarrow> t'' < ?T"
    proof (intro allI impI)
      fix t'' e'' assume "Rejected t'' e'' \<in> set ?sts"
      then obtain j where j: "j < length leafs" "outcomeOf (leafs ! j) = Rejected t'' e''"
        by (auto simp: in_set_conv_nth)
      with each len obtain a where "leafs ! j = Leaf a (lastPosition [j] (log cfg))" by auto
      with j have "t'' = lastPosition [j] (log cfg)"
        by (cases "Leaf a (lastPosition [j] (log cfg))" rule: outcomeOf.cases) auto
      then show "t'' < ?T" using lastPosition_le [of "[j]" "log cfg"] by simp
    qed
    have "earliest (?sts[i := outcomeOf (Leaf (k r) ?T)]) = Some (t, e)"
    proof (cases "\<exists>e'. k r = Settled (Inl e')")
      case True
      then obtain e' where "k r = Settled (Inl e')" by blast
      then have "outcomeOf (Leaf (k r) ?T) = Rejected ?T e'" by simp
      with earliest_late [OF i pend before, of e'] early show ?thesis by simp
    next
      case False
      then have "\<forall>t' e'. outcomeOf (Leaf (k r) ?T) \<noteq> Rejected t' e'"
        by (cases "(Leaf (k r) ?T)" rule: outcomeOf.cases) auto
      from earliest_unsettled [OF i pend this] early show ?thesis by simp
    qed
    then have "outcomeOf (Node (leafs[i := Leaf (k r) ?T])) = Rejected t e"
      by (simp only: outcomeOf_Node_Rejected map_update)
    with act show ?thesis by simp
  qed
qed

lemma rejected_stays:
  assumes "fanInv as sched cfg" and "outcomeOf (tree cfg) = Rejected t e"
  shows "outcomeOf (tree (fold (step w) rest cfg)) = Rejected t e"
  using assms
proof (induction rest arbitrary: cfg sched)
  case Nil
  then show ?case by simp
next
  case (Cons p rest)
  from Cons.prems have "fanInv as (sched @ [p]) (step w p cfg)" by (simp add: fanInv_step)
  moreover from Cons.prems have "outcomeOf (tree (step w p cfg)) = Rejected t e"
    by (rule rejected_step)
  ultimately show ?case using Cons.IH by simp
qed

lemma fulfilled_all_settled:
  assumes inv: "fanInv as sched cfg" and ful: "outcomeOf (tree cfg) = Fulfilled v"
  shows "\<exists>vs. length vs = length as \<and> v = JArr vs
     \<and> tree cfg = Node (map (\<lambda>i. Leaf (Settled (Inr (vs ! i))) (lastPosition [i] (log cfg)))
                        [0..<length as])"
proof -
  from inv obtain leafs where
    tr: "tree cfg = Node leafs" and len: "length leafs = length as" and
    each: "\<forall>i<length as. \<exists>a. leafs ! i = Leaf a (lastPosition [i] (log cfg))"
    unfolding fanInv_def by blast
  let ?sts = "map outcomeOf leafs"
  let ?vs = "map (\<lambda>st. the (fulfilledValue st)) ?sts"
  from ful tr have all: "list_all (\<lambda>st. fulfilledValue st \<noteq> None) ?sts" and v: "v = JArr ?vs"
    by (auto simp: Let_def split: option.splits if_splits)
  have "leafs = map (\<lambda>i. Leaf (Settled (Inr (?vs ! i))) (lastPosition [i] (log cfg)))
                  [0..<length as]"
  proof (rule nth_equalityI)
    show "length leafs = length (map (\<lambda>i. Leaf (Settled (Inr (?vs ! i)))
              (lastPosition [i] (log cfg))) [0..<length as])"
      using len by simp
  next
    fix i assume "i < length leafs"
    with len have i: "i < length as" by simp
    with each obtain a where a: "leafs ! i = Leaf a (lastPosition [i] (log cfg))" by auto
    from all i len have "fulfilledValue (outcomeOf (leafs ! i)) \<noteq> None"
      by (simp add: list_all_length)
    with a obtain x where "a = Settled (Inr x)"
      by (cases "Leaf a (lastPosition [i] (log cfg))" rule: outcomeOf.cases) auto
    with a i len show "leafs ! i = map (\<lambda>i. Leaf (Settled (Inr (?vs ! i)))
              (lastPosition [i] (log cfg))) [0..<length as] ! i"
      by simp
  qed
  with tr v len show ?thesis
    by (intro exI [where x = ?vs]) simp
qed

text \<open>
  Claim C5. \<open>persist\<close> of an array of entities (and likewise \<open>remove\<close>) is
  \<open>Promise.all\<close> over one single-entity operation per element. In every world:
  under every schedule that names each sibling at least four times (the calls of one
  operation), every sibling has settled, and its own events are one complete
  acquire/delegate/release cycle for its element, whatever the other siblings did (no
  sibling is cancelled); no two siblings settle at the same time; when every sibling
  succeeded the call is fulfilled with the array of their results in input order; when
  some sibling failed the call is rejected with the error of the failed sibling that
  settled first, and carries no sibling's result. Under any schedule, a call that is
  rejected stays rejected with that same error while the remaining siblings go on, and a
  call is fulfilled only when all siblings have settled with a value.
\<close>

theorem fan_out_all:
  assumes which: "(fan, d, flag) = (persist, PersisterPersist, None)
                \<or> (fan, d, flag) = (remove, PersisterRemove, Some True)"
    and entities: "\<forall>e \<in> set es. \<forall>xs. e \<noteq> JArr xs"
    and fair: "\<forall>i<length es. 4 \<le> count_list schedule [i]"
    and cfg: "cfg = run w schedule (fan repo (JArr es)) s"
  shows "(\<exists>rs. length rs = length es
     \<and> tree cfg = Node (map (\<lambda>i. Leaf (Settled (rs ! i)) (lastPosition [i] (log cfg)))
                        [0..<length es])
     \<and> (\<forall>i<length es.
           leaseCycle repo flag (\<lambda>qr. d (connection repo) (metadata repo) qr (es ! i))
             (eventsOf [i] (log cfg)) (rs ! i)
         \<and> 0 < lastPosition [i] (log cfg))
     \<and> (\<forall>i<length es. \<forall>j<length es.
           i \<noteq> j \<longrightarrow> lastPosition [i] (log cfg) \<noteq> lastPosition [j] (log cfg))
     \<and> ((\<forall>i<length es. \<not> isl (rs ! i)) \<longrightarrow>
           outcomeOf (tree cfg) = Fulfilled (JArr (map projr rs)))
     \<and> ((\<exists>i<length es. isl (rs ! i)) \<longrightarrow>
           (\<exists>i<length es. \<exists>e. rs ! i = Inl e
              \<and> outcomeOf (tree cfg) = Rejected (lastPosition [i] (log cfg)) e
              \<and> (\<forall>j<length es. isl (rs ! j) \<longrightarrow>
                    lastPosition [i] (log cfg) \<le> lastPosition [j] (log cfg)))))
   \<and> (\<forall>before after t e.
         outcomeOf (tree (run w before (fan repo (JArr es)) s)) = Rejected t e \<longrightarrow>
         outcomeOf (tree (run w (before @ after) (fan repo (JArr es)) s)) = Rejected t e)
   \<and> (\<forall>before v.
         outcomeOf (tree (run w before (fan repo (JArr es)) s)) = Fulfilled v \<longrightarrow>
         (\<exists>vs. length vs = length es \<and> v = JArr vs
            \<and> tree (run w before (fan repo (JArr es)) s)
              = Node (map (\<lambda>i. Leaf (Settled (Inr (vs ! i)))
                               (lastPosition [i] (log (run w before (fan repo (JArr es)) s))))
                        [0..<length es])))"
proof -
  let ?d = "\<lambda>e qr. d (connection repo) (metadata repo) qr e"
  have start: "start (fan repo (JArr es)) =
      Node (map (\<lambda>a. Leaf a 0)
             (map (\<lambda>e. bind (providerOrNew repo flag) (\<lambda>p. leased p (?d e))) es))"
    using which
  proof
    assume "(fan, d, flag) = (persist, PersisterPersist, None)"
    then show ?thesis
      using start_persist_array [OF entities, of repo] by (simp add: persistOne_lease)
  next
    assume "(fan, d, flag) = (remove, PersisterRemove, Some True)"
    then show ?thesis
      using start_remove_array [OF entities, of repo] by (simp add: removeOne_lease)
  qed
  have cfg': "cfg = fold (step w) schedule
        \<lparr>tree = Node (map (\<lambda>a. Leaf a 0)
                  (map (\<lambda>e. bind (providerOrNew repo flag) (\<lambda>p. leased p (?d e))) es)),
         log = [], world_state = s\<rparr>"
    unfolding cfg run_def start ..
  from fan_out_lease [OF fair cfg'] obtain rs where
    len: "length rs = length es" and
    tr: "tree cfg = Node (map (\<lambda>i. Leaf (Settled (rs ! i)) (lastPosition [i] (log cfg)))
                        [0..<length es])" and
    cyc: "\<forall>i<length es. leaseCycle repo flag (?d (es ! i)) (eventsOf [i] (log cfg)) (rs ! i)"
    by blast
  have pos: "0 < lastPosition [i] (log cfg)" if "i < length es" for i
  proof -
    from cyc that have "eventsOf [i] (log cfg) \<noteq> []" by (auto dest: leaseCycle_nonempty)
    then show ?thesis using lastPosition_zero [of "[i]" "log cfg"] by simp
  qed
  have distinct: "lastPosition [i] (log cfg) \<noteq> lastPosition [j] (log cfg)"
    if "i < length es" "j < length es" "i \<noteq> j" for i j
  proof
    assume eq: "lastPosition [i] (log cfg) = lastPosition [j] (log cfg)"
    from lastPosition_at [OF pos [OF that(1)]]
    have "fst (log cfg ! (lastPosition [i] (log cfg) - 1)) = [i]" by simp
    moreover from lastPosition_at [OF pos [OF that(2)]]
    have "fst (log cfg ! (lastPosition [j] (log cfg) - 1)) = [j]" by simp
    ultimately show False using eq that(3) by simp
  qed
  from outcome_settled_node [OF len, of "\<lambda>i. lastPosition [i] (log cfg)"]
  have out: "((\<forall>i<length es. \<not> isl (rs ! i)) \<longrightarrow>
           outcomeOf (tree cfg) = Fulfilled (JArr (map projr rs)))
     \<and> ((\<exists>i<length es. isl (rs ! i)) \<longrightarrow>
           (\<exists>i<length es. \<exists>e. rs ! i = Inl e
              \<and> outcomeOf (tree cfg) = Rejected (lastPosition [i] (log cfg)) e
              \<and> (\<forall>j<length es. isl (rs ! j) \<longrightarrow>
                    lastPosition [i] (log cfg) \<le> lastPosition [j] (log cfg))))"
    unfolding tr .
  have final: "\<exists>rs. length rs = length es
     \<and> tree cfg = Node (map (\<lambda>i. Leaf (Settled (rs ! i)) (lastPosition [i] (log cfg)))
                        [0..<length es])
     \<and> (\<forall>i<length es.
           leaseCycle repo flag (\<lambda>qr. d (connection repo) (metadata repo) qr (es ! i))
             (eventsOf [i] (log cfg)) (rs ! i)
         \<and> 0 < lastPosition [i] (log cfg))
     \<and> (\<forall>i<length es. \<forall>j<length es.
           i \<noteq> j \<longrightarrow> lastPosition [i] (log cfg) \<noteq> lastPosition [j] (log cfg))
     \<and> ((\<forall>i<length es. \<not> isl (rs ! i)) \<longrightarrow>
           outcomeOf (tree cfg) = Fulfilled (JArr (map projr rs)))
     \<and> ((\<exists>i<length es. isl (rs ! i)) \<longrightarrow>
           (\<exists>i<length es. \<exists>e. rs ! i = Inl e
              \<and> outcomeOf (tree cfg) = Rejected (lastPosition [i] (log cfg)) e
              \<and> (\<forall>j<length es. isl (rs ! j) \<longrightarrow>
                    lastPosition [i] (log cfg) \<le> lastPosition [j] (log cfg))))"
    by (rule exI [where x = rs]) (use len tr cyc pos distinct out in blast)
  let ?as = "map (\<lambda>e. bind (providerOrNew repo flag) (\<lambda>p. leased p (?d e))) es"
  have inv: "fanInv ?as sched (run w sched (fan repo (JArr es)) s)" for sched
    unfolding run_def start by (rule fanInv_run)
  have stays: "outcomeOf (tree (run w (before @ after) (fan repo (JArr es)) s)) = Rejected t e"
    if "outcomeOf (tree (run w before (fan repo (JArr es)) s)) = Rejected t e"
    for before after t e
  proof -
    have "run w (before @ after) (fan repo (JArr es)) s
        = fold (step w) after (run w before (fan repo (JArr es)) s)"
      by (simp add: run_def)
    with rejected_stays [OF inv that] show ?thesis by simp
  qed
  have waits: "\<exists>vs. length vs = length es \<and> v = JArr vs
            \<and> tree (run w before (fan repo (JArr es)) s)
              = Node (map (\<lambda>i. Leaf (Settled (Inr (vs ! i)))
                               (lastPosition [i] (log (run w before (fan repo (JArr es)) s))))
                        [0..<length es])"
    if "outcomeOf (tree (run w before (fan repo (JArr es)) s)) = Fulfilled v" for before v
    using fulfilled_all_settled [OF inv that] by simp
  from final stays waits show ?thesis by blast
qed

theorem fan_out_all_witness:
  "count_list [[0], [1], [1], [0], [1], [0], [1], [0]] [0::nat] = 4
   \<and> count_list [[0], [1], [1], [0], [1], [0], [1], [0]] [1::nat] = 4
   \<and> outcomeOf (tree (run (stubWorld demoAnswer) [[0], [1], [1], [0], [1], [0], [1], [0]]
        (persist userRepository (JArr [JObj [(''id'', JNum 1)], JNull])) 0))
     = Rejected 7 (JStr ''cannot persist'')
   \<and> eventsOf [0] (log (run (stubWorld demoAnswer) [[0], [1], [1], [0], [1], [0], [1], [0]]
        (persist userRepository (JArr [JObj [(''id'', JNum 1)], JNull])) 0))
     = [(NewQueryRunnerProvider (JRef 100) None, Inr (JRef 7)),
        (Provide (JRef 7), Inr (JRef 8)),
        (PersisterPersist \<lparr>driver = JRef 100\<rparr> userMetadata (JRef 8) (JObj [(''id'', JNum 1)]),
         Inr (JObj [(''id'', JNum 1)])),
        (Release (JRef 7) (JRef 8), Inr JUndefined)]
   \<and> eventsOf [1] (log (run (stubWorld demoAnswer) [[0], [1], [1], [0], [1], [0], [1], [0]]
        (persist userRepository (JArr [JObj [(''id'', JNum 1)], JNull])) 0))
     = [(NewQueryRunnerProvider (JRef 100) None, Inr (JRef 7)),
        (Provide (JRef 7), Inr (JRef 8)),
        (PersisterPersist \<lparr>driver = JRef 100\<rparr> userMetadata (JRef 8) JNull,
         Inl (JStr ''cannot persist'')),
        (Release (JRef 7) (JRef 8), Inr JUndefined)]
   \<and> lastPosition [0] (log (run (stubWorld demoAnswer) [[0], [1], [1], [0], [1], [0], [1], [0]]
        (persist userRepository (JArr [JObj [(''id'', JNum 1)], JNull])) 0)) = 8
   \<and> lastPosition [1] (log (run (stubWorld demoAnswer) [[0], [1], [1], [0], [1], [0], [1], [0]]
        (persist userRepository (JArr [JObj [(''id'', JNum 1)], JNull])) 0)) = 7"
proof -
  let ?sched = "[[0], [1], [1], [0], [1], [0], [1], [0::nat]]"
  let ?es = "[JObj [(''id'', JNum 1)], JNull]"
  let ?cfg = "run (stubWorld demoAnswer) ?sched (persist userRepository (JArr ?es)) 0"
  have which: "(persist, PersisterPersist, None) = (persist, PersisterPersist, None)
      \<or> (persist, PersisterPersist, None) = (remove, PersisterRemove, Some True)"
    by simp
  have entities: "\<forall>e \<in> set ?es. \<forall>xs. e \<noteq> JArr xs" by simp
  have c0: "count_list ?sched [0::nat] = 4" by simp
  have c1: "count_list ?sched [1::nat] = 4" by simp
  have fair: "\<forall>i<length ?es. 4 \<le> count_list ?sched [i]"
    using c0 c1 by (simp add: less_Suc_eq)
  from fan_out_all [OF which entities fair refl, of "stubWorld demoAnswer" userRepository 0]
  obtain rs where settled: "length rs = length ?es"
    "tree ?cfg = Node (map (\<lambda>i. Leaf (Settled (rs ! i)) (lastPosition [i] (log ?cfg)))
                        [0..<length ?es])"
    by blast
  have out: "outcomeOf (tree ?cfg) = Rejected 7 (JStr ''cannot persist'')" by code_simp
  have e0: "eventsOf [0] (log ?cfg)
     = [(NewQueryRunnerProvider (JRef 100) None, Inr (JRef 7)),
        (Provide (JRef 7), Inr (JRef 8)),
        (PersisterPersist \<lparr>driver = JRef 100\<rparr> userMetadata (JRef 8) (JObj [(''id'', JNum 1)]),
         Inr (JObj [(''id'', JNum 1)])),
        (Release (JRef 7) (JRef 8), Inr JUndefined)]" by code_simp
  have e1: "eventsOf [1] (log ?cfg)
     = [(NewQueryRunnerProvider (JRef 100) None, Inr (JRef 7)),
        (Provide (JRef 7), Inr (JRef 8)),
        (PersisterPersist \<lparr>driver = JRef 100\<rparr> userMetadata (JRef 8) JNull,
         Inl (JStr ''cannot persist'')),
        (Release (JRef 7) (JRef 8), Inr JUndefined)]" by code_simp
  have p0: "lastPosition [0] (log ?cfg) = 8" by code_simp
  have p1: "lastPosition [1] (log ?cfg) = 7" by code_simp
  from settled c0 c1 out e0 e1 p0 p1 show ?thesis by simp
qed

end
